theory Spec2Isabelle
  imports Main "HOL-Library.Word" "HOL-Library.Sublist"
begin

section \<open>Machine types and the standard library\<close>

text \<open>
  \<open>size_t\<close> is an unsigned 64-bit integer; \<open>uint8_t\<close> and \<open>int8_t\<close> are 8-bit words
  (read with \<open>unat\<close> and \<open>sint\<close>), \<open>int\<close> and \<open>unsigned int\<close> are 32-bit words.
  A \<open>std::string\<close> is a \<open>string\<close> and a \<open>std::vector\<close> is a list. The size of a
  container is its \<open>length\<close>; the standard library keeps it below \<open>2 ^ 64\<close>, so a
  comparison of a size with a \<open>size_t\<close> value \<open>w\<close> is a comparison with \<open>unat w\<close>.

  The source does not fix the standard library it is built with. The two limits of
  that library which the display code can hit are parameters of the model:
  \<open>max_size()\<close> of \<open>std::vector<std::string>\<close> and of \<open>std::string\<close>. A container
  operation that would exceed its limit throws \<open>std::length_error\<close>. Exhaustion of
  memory (\<open>std::bad_alloc\<close>) is not modelled.
\<close>

type_synonym size_t = "64 word"
type_synonym uint8_t = "8 word"
type_synonym int8_t = "8 word"
type_synonym c_int = "32 word"
type_synonym c_unsigned = "32 word"

datatype exception = invalid_argument string | out_of_range string | length_error

record Platform =
  vector_max_size :: size_t
  string_max_size :: size_t

text \<open>
  An exception leaves the enclosing expression at once: \<open>and_then r f\<close> continues with
  \<open>f\<close> on the value of \<open>r\<close>, or passes on the exception of \<open>r\<close>.
\<close>

definition and_then :: "exception + 'a \<Rightarrow> ('a \<Rightarrow> exception + 'b) \<Rightarrow> exception + 'b" where
  "and_then r f = (case r of Inl e \<Rightarrow> Inl e | Inr x \<Rightarrow> f x)"

text \<open>
  The constructor \<open>std::string(count, ch)\<close> and \<open>operator+=\<close> of a string, as the
  display code uses them.
\<close>

definition string_fill :: "Platform \<Rightarrow> nat \<Rightarrow> char \<Rightarrow> exception + string" where
  "string_fill P count ch =
     (if count > unat (string_max_size P) then Inl length_error
      else Inr (replicate count ch))"

definition string_append :: "Platform \<Rightarrow> string \<Rightarrow> string \<Rightarrow> exception + string" where
  "string_append P line text =
     (if length line + length text > unat (string_max_size P) then Inl length_error
      else Inr (line @ text))"

text \<open>The digits of a natural number in base ten, most significant first.\<close>

fun decimal :: "nat \<Rightarrow> string" where
  "decimal n =
     (if n < 10 then [char_of (48 + n)]
      else decimal (n div 10) @ [char_of (48 + n mod 10)])"

declare decimal.simps [simp del]

text \<open>
  What \<open>operator<<\<close> of a default-constructed \<open>std::ostringstream\<close> writes for a
  string, a character, an \<open>unsigned int\<close> and an \<open>int\<close>, and \<open>std::to_string\<close> of a
  \<open>size_t\<close>.
\<close>

definition ostream_string :: "string \<Rightarrow> string" where
  "ostream_string s = s"

definition ostream_char :: "8 word \<Rightarrow> string" where
  "ostream_char c = [char_of (unat c)]"

definition ostream_unsigned :: "c_unsigned \<Rightarrow> string" where
  "ostream_unsigned u = decimal (unat u)"

definition ostream_int :: "c_int \<Rightarrow> string" where
  "ostream_int i =
     (if sint i < 0 then CHR ''-'' # decimal (nat (- sint i)) else decimal (nat (sint i)))"

definition to_string :: "size_t \<Rightarrow> string" where
  "to_string n = decimal (unat n)"

section \<open>DisplayItem.h\<close>

record ('k, 'v) DisplayItem =
  key :: 'k
  "value" :: 'v

text \<open>
  The primary template \<open>toString<T>\<close> writes its argument to a stream with the
  insertion operator of \<open>T\<close>, here the parameter \<open>ins\<close>. The two non-template overloads
  for \<open>uint8_t\<close> and \<open>int8_t\<close> widen the byte first.
\<close>

definition toString :: "('a \<Rightarrow> string) \<Rightarrow> 'a \<Rightarrow> string" where
  "toString ins data = ins data"

definition toString_uint8 :: "uint8_t \<Rightarrow> string" where
  "toString_uint8 data = ostream_unsigned (ucast data)"

definition toString_int8 :: "int8_t \<Rightarrow> string" where
  "toString_int8 data = ostream_int (scast data)"

definition formatToWidth :: "string \<Rightarrow> size_t \<Rightarrow> string" where
  "formatToWidth text width =
     (if length text < unat width
      then text @ replicate (unat width - length text) CHR '' ''
      else if length text > unat width
      then take (unat width) text
      else text)"

text \<open>
  An instantiation \<open>DisplayItem<TKey, TValue, KeyWidth, ValueWidth>\<close>: the two widths
  and the \<open>toString\<close> overload that overload resolution selects for the key and for the
  value type.
\<close>

record ('k, 'v) TDisplayItem =
  toStringKey :: "'k \<Rightarrow> string"
  toStringValue :: "'v \<Rightarrow> string"
  KeyWidth :: size_t
  ValueWidth :: size_t

definition getFormattedKey :: "('k, 'v) TDisplayItem \<Rightarrow> ('k, 'v) DisplayItem \<Rightarrow> string" where
  "getFormattedKey T item = formatToWidth (toStringKey T (key item)) (KeyWidth T)"

definition getFormattedValue :: "('k, 'v) TDisplayItem \<Rightarrow> ('k, 'v) DisplayItem \<Rightarrow> string" where
  "getFormattedValue T item = formatToWidth (toStringValue T (value item)) (ValueWidth T)"

text \<open>\<open>using InventoryDisplayItem = DisplayItem<std::string, uint8_t, 11, 3>\<close>\<close>

definition InventoryDisplayItem :: "(string, uint8_t) TDisplayItem" where
  "InventoryDisplayItem =
     \<lparr>toStringKey = toString ostream_string, toStringValue = toString_uint8,
      KeyWidth = 11, ValueWidth = 3\<rparr>"

text \<open>
  The item types of the test suites: \<open>DisplayItem<std::string, int, 8, 4>\<close> in
  DisplayItemTests.cpp and \<open>DisplayItem<std::string, int, 10, 4>\<close> in ScrollingTests.cpp.
\<close>

definition TestDisplayItem8 :: "(string, c_int) TDisplayItem" where
  "TestDisplayItem8 =
     \<lparr>toStringKey = toString ostream_string, toStringValue = toString ostream_int,
      KeyWidth = 8, ValueWidth = 4\<rparr>"

definition TestDisplayItem :: "(string, c_int) TDisplayItem" where
  "TestDisplayItem =
     \<lparr>toStringKey = toString ostream_string, toStringValue = toString ostream_int,
      KeyWidth = 10, ValueWidth = 4\<rparr>"

section \<open>DisplayConfig.h\<close>

record DisplayConfig =
  rows :: size_t
  columns :: size_t
  navigatorChar :: char
  separatorChar :: char

text \<open>The constructor of \<open>DisplayConfig\<close> with all its default arguments.\<close>

definition DisplayConfig_default :: DisplayConfig where
  "DisplayConfig_default =
     \<lparr>rows = 2, columns = 16, navigatorChar = CHR ''>'', separatorChar = CHR '':''\<rparr>"

section \<open>LCDDisplayController.h\<close>

text \<open>
  The renderer is seen through the calls it receives: one \<open>frame\<close> for each call of
  \<open>IRenderer::render\<close>, holding the lines and the column count passed, oldest first.
  The controller holds the (non-null) renderer, so the trace is a field of its state.
  A member function that can throw returns the exception or its result, together with
  the state it leaves behind; the \<open>const\<close> member functions return no state.
\<close>

type_synonym frame = "string list \<times> size_t"
type_synonym IRenderer = "frame list"

record ('k, 'v) LCDDisplayController =
  config :: DisplayConfig
  items :: "('k, 'v) DisplayItem list"
  renderer :: IRenderer
  selectedItemIndex :: size_t
  windowStartIndex :: size_t
  isSelected :: bool

definition getNavigatorRowInWindow :: "('k, 'v) LCDDisplayController \<Rightarrow> size_t" where
  "getNavigatorRowInWindow s = selectedItemIndex s - windowStartIndex s"

text \<open>
  \<open>formatRow\<close> builds the line by appending to a string, and every append can exceed
  what a string can hold. \<open>formatToWidth\<close> pads by \<open>text + std::string(width - length, ' ')\<close>,
  which throws \<open>std::length_error\<close> exactly when \<open>width\<close> exceeds that limit; the line to
  which \<open>formatRow\<close> appends the formatted field is not empty, so the append of a field
  of such a width throws the same exception, and \<open>formatRow\<close> throws for the same inputs
  whether the check is made in \<open>formatToWidth\<close> or at the append.
\<close>

definition formatRow ::
  "Platform \<Rightarrow> ('k, 'v) TDisplayItem \<Rightarrow> ('k, 'v) LCDDisplayController \<Rightarrow> size_t
     \<Rightarrow> exception + string" where
  "formatRow P T s rowIndex =
     (let itemIndex = windowStartIndex s + rowIndex
      in and_then
           (string_append P []
              [if rowIndex = getNavigatorRowInWindow s
               then navigatorChar (config s) else CHR '' ''])
           (\<lambda>line.
      and_then
           (if unat itemIndex < length (items s)
            then and_then
                   (string_append P line (getFormattedKey T (items s ! unat itemIndex)))
                   (\<lambda>line.
                 and_then (string_append P line [separatorChar (config s)])
                   (\<lambda>line.
                 string_append P line (getFormattedValue T (items s ! unat itemIndex))))
            else
              (let remainingSpace =
                     (if columns (config s) > 1 then columns (config s) - 1 else 0)
               in and_then (string_fill P (unat remainingSpace) CHR '' '')
                    (\<lambda>spaces. string_append P line spaces)))
           (\<lambda>line.
              if length line < unat (columns (config s))
              then and_then
                     (string_fill P (unat (columns (config s)) - length line) CHR '' '')
                     (\<lambda>spaces. string_append P line spaces)
              else if length line > unat (columns (config s))
              then Inr (take (unat (columns (config s))) line)
              else Inr line)))"

definition validateItemIndex ::
  "('k, 'v) LCDDisplayController \<Rightarrow> size_t \<Rightarrow> exception + unit" where
  "validateItemIndex s itemIndex =
     (if unat itemIndex \<ge> length (items s)
      then Inl (out_of_range ''Item index out of range'')
      else Inr ())"

definition adjustWindow :: "('k, 'v) LCDDisplayController \<Rightarrow> ('k, 'v) LCDDisplayController" where
  "adjustWindow s =
     (if items s = [] then s\<lparr>windowStartIndex := 0\<rparr>
      else if selectedItemIndex s < windowStartIndex s
      then s\<lparr>windowStartIndex := selectedItemIndex s\<rparr>
      else if selectedItemIndex s \<ge> windowStartIndex s + rows (config s)
      then s\<lparr>windowStartIndex := selectedItemIndex s - rows (config s) + 1\<rparr>
      else s)"

text \<open>
  The constructor. \<open>requiredWidth\<close> is computed in \<open>size_t\<close>; the \<open>static_assert\<close>
  rejects at compile time the item types for which it exceeds 256.
\<close>

definition requiredWidth :: "('k, 'v) TDisplayItem \<Rightarrow> size_t" where
  "requiredWidth T = 1 + KeyWidth T + 1 + ValueWidth T"

definition static_assert_requiredWidth :: "('k, 'v) TDisplayItem \<Rightarrow> bool" where
  "static_assert_requiredWidth T = (requiredWidth T \<le> 256)"

definition LCDDisplayController_ctor ::
  "('k, 'v) TDisplayItem \<Rightarrow> ('k, 'v) DisplayItem list \<Rightarrow> IRenderer option \<Rightarrow> DisplayConfig
     \<Rightarrow> exception + ('k, 'v) LCDDisplayController" where
  "LCDDisplayController_ctor T its rend cfg =
     (case rend of
        None \<Rightarrow> Inl (invalid_argument ''Renderer cannot be null'')
      | Some r \<Rightarrow>
          if columns cfg < requiredWidth T
          then Inl (invalid_argument
                 (''DisplayConfig columns ('' @ to_string (columns cfg)
                  @ '') is too small for DisplayItem width requirements (''
                  @ to_string (requiredWidth T) @ '' = 1 navigator + ''
                  @ to_string (KeyWidth T) @ '' key + 1 separator + ''
                  @ to_string (ValueWidth T) @ '' value)''))
          else Inr \<lparr>config = cfg, items = its, renderer = r, selectedItemIndex = 0,
                    windowStartIndex = 0, isSelected = False\<rparr>)"

text \<open>The loop of \<open>render\<close>, from row \<open>i\<close> on, appending to \<open>lines\<close>.\<close>

function render_loop ::
  "Platform \<Rightarrow> ('k, 'v) TDisplayItem \<Rightarrow> ('k, 'v) LCDDisplayController \<Rightarrow> size_t
     \<Rightarrow> string list \<Rightarrow> exception + string list" where
  "render_loop P T s i lines =
     (if i < rows (config s)
      then (case formatRow P T s i of
              Inl e \<Rightarrow> Inl e
            | Inr line \<Rightarrow> render_loop P T s (i + 1) (lines @ [line]))
      else Inr lines)"
  by pat_completeness auto
termination
proof (relation "measure (\<lambda>(P, T, s, i, lines). unat (rows (config s)) - unat i)")
  show "wf (measure (\<lambda>(P, T, s, i, lines). unat (rows (config s)) - unat i))"
    by simp
next
  fix P :: Platform and T :: "('k, 'v) TDisplayItem" and s :: "('k, 'v) LCDDisplayController"
    and i :: size_t and lines :: "string list" and line :: string
  assume less: "i < rows (config s)"
  then have "unat (i + 1) = Suc (unat i)"
    by unat_arith
  moreover have "unat i < unat (rows (config s))"
    using less by (simp add: word_less_nat_alt)
  ultimately show "((P, T, s, i + 1, lines @ [line]), (P, T, s, i, lines))
      \<in> measure (\<lambda>(P, T, s, i, lines). unat (rows (config s)) - unat i)"
    by simp
qed

declare render_loop.simps [simp del]

text \<open>
  \<open>render\<close>: \<open>lines.reserve(config.rows)\<close> throws when \<open>rows\<close> exceeds what the vector
  can hold; then the rows are formatted, and only then the renderer is called. When
  \<open>render\<close> throws, the renderer has received nothing.
\<close>

definition render ::
  "Platform \<Rightarrow> ('k, 'v) TDisplayItem \<Rightarrow> ('k, 'v) LCDDisplayController
     \<Rightarrow> (exception + unit) \<times> ('k, 'v) LCDDisplayController" where
  "render P T s =
     (if rows (config s) > vector_max_size P then (Inl length_error, s)
      else (case render_loop P T s 0 [] of
              Inl e \<Rightarrow> (Inl e, s)
            | Inr lines \<Rightarrow>
                (Inr (), s\<lparr>renderer := renderer s @ [(lines, columns (config s))]\<rparr>)))"

text \<open>
  \<open>render(); return x;\<close> at the end of a member function: the result is \<open>x\<close> unless
  \<open>render\<close> throws.
\<close>

definition returning ::
  "'a \<Rightarrow> (exception + unit) \<times> 's \<Rightarrow> (exception + 'a) \<times> 's" where
  "returning x r = (case fst r of Inl e \<Rightarrow> (Inl e, snd r) | Inr _ \<Rightarrow> (Inr x, snd r))"

definition navigateUp ::
  "Platform \<Rightarrow> ('k, 'v) TDisplayItem \<Rightarrow> ('k, 'v) LCDDisplayController
     \<Rightarrow> (exception + bool) \<times> ('k, 'v) LCDDisplayController" where
  "navigateUp P T s =
     (if selectedItemIndex s > 0
      then returning True
             (render P T (adjustWindow (s\<lparr>selectedItemIndex := selectedItemIndex s - 1\<rparr>)))
      else (Inr False, s))"

definition navigateDown ::
  "Platform \<Rightarrow> ('k, 'v) TDisplayItem \<Rightarrow> ('k, 'v) LCDDisplayController
     \<Rightarrow> (exception + bool) \<times> ('k, 'v) LCDDisplayController" where
  "navigateDown P T s =
     (if items s \<noteq> [] \<and> unat (selectedItemIndex s) < length (items s) - 1
      then returning True
             (render P T (adjustWindow (s\<lparr>selectedItemIndex := selectedItemIndex s + 1\<rparr>)))
      else (Inr False, s))"

definition selectItem ::
  "Platform \<Rightarrow> ('k, 'v) TDisplayItem \<Rightarrow> ('k, 'v) LCDDisplayController
     \<Rightarrow> (exception + bool) \<times> ('k, 'v) LCDDisplayController" where
  "selectItem P T s =
     (if \<not> isSelected s then returning True (render P T (s\<lparr>isSelected := True\<rparr>))
      else (Inr False, s))"

definition deselectItem ::
  "Platform \<Rightarrow> ('k, 'v) TDisplayItem \<Rightarrow> ('k, 'v) LCDDisplayController
     \<Rightarrow> (exception + bool) \<times> ('k, 'v) LCDDisplayController" where
  "deselectItem P T s =
     (if isSelected s then returning True (render P T (s\<lparr>isSelected := False\<rparr>))
      else (Inr False, s))"

definition setCurrentValue ::
  "Platform \<Rightarrow> ('k, 'v) TDisplayItem \<Rightarrow> 'v \<Rightarrow> ('k, 'v) LCDDisplayController
     \<Rightarrow> (exception + unit) \<times> ('k, 'v) LCDDisplayController" where
  "setCurrentValue P T newValue s =
     (case validateItemIndex s (selectedItemIndex s) of
        Inl e \<Rightarrow> (Inl e, s)
      | Inr _ \<Rightarrow>
          render P T (s\<lparr>items := (items s)[unat (selectedItemIndex s) :=
            (items s ! unat (selectedItemIndex s))\<lparr>value := newValue\<rparr>]\<rparr>))"

definition getCurrentValue :: "('k, 'v) LCDDisplayController \<Rightarrow> exception + 'v" where
  "getCurrentValue s =
     (case validateItemIndex s (selectedItemIndex s) of
        Inl e \<Rightarrow> Inl e
      | Inr _ \<Rightarrow> Inr (value (items s ! unat (selectedItemIndex s))))"

definition getCurrentKey :: "('k, 'v) LCDDisplayController \<Rightarrow> exception + 'k" where
  "getCurrentKey s =
     (case validateItemIndex s (selectedItemIndex s) of
        Inl e \<Rightarrow> Inl e
      | Inr _ \<Rightarrow> Inr (key (items s ! unat (selectedItemIndex s))))"

definition canScroll :: "('k, 'v) LCDDisplayController \<Rightarrow> bool" where
  "canScroll s = (length (items s) > unat (rows (config s)))"

section \<open>LCDInventoryController.h\<close>

text \<open>
  The inventory controller has one member, the display controller, and forwards to it.
  For the inventory item type the value is a \<open>uint8_t\<close>: \<open>currentValue + 1\<close> is
  computed in \<open>int\<close> after integral promotion, and \<open>setValue\<close> converts the \<open>int\<close> back
  to \<open>uint8_t\<close>.
\<close>

definition incrementValue ::
  "Platform \<Rightarrow> ('k, uint8_t) TDisplayItem \<Rightarrow> ('k, uint8_t) LCDDisplayController
     \<Rightarrow> (exception + unit) \<times> ('k, uint8_t) LCDDisplayController" where
  "incrementValue P T s =
     (case getCurrentValue s of
        Inl e \<Rightarrow> (Inl e, s)
      | Inr currentValue \<Rightarrow>
          setCurrentValue P T (ucast ((ucast currentValue :: c_int) + 1)) s)"

definition decrementValue ::
  "Platform \<Rightarrow> ('k, uint8_t) TDisplayItem \<Rightarrow> ('k, uint8_t) LCDDisplayController
     \<Rightarrow> (exception + unit) \<times> ('k, uint8_t) LCDDisplayController" where
  "decrementValue P T s =
     (case getCurrentValue s of
        Inl e \<Rightarrow> (Inl e, s)
      | Inr currentValue \<Rightarrow>
          setCurrentValue P T (ucast ((ucast currentValue :: c_int) - 1)) s)"

section \<open>Notions used by the specification\<close>

text \<open>
  The decimal numeral of a natural number: a non-empty string of digits with no leading
  zero (except for \<open>0\<close> itself) whose value, read in base ten, is the number. The
  numeral of a negative integer is a minus sign followed by the numeral of its magnitude.
\<close>

definition is_digit :: "char \<Rightarrow> bool" where
  "is_digit c = (48 \<le> (of_char c :: nat) \<and> (of_char c :: nat) \<le> 57)"

definition read_decimal :: "string \<Rightarrow> nat" where
  "read_decimal s = foldl (\<lambda>a c. 10 * a + (of_char c - 48)) 0 s"

definition is_decimal_numeral_of :: "string \<Rightarrow> nat \<Rightarrow> bool" where
  "is_decimal_numeral_of s n =
     (s \<noteq> [] \<and> list_all is_digit s \<and> (length s > 1 \<longrightarrow> hd s \<noteq> CHR ''0'') \<and> read_decimal s = n)"

definition is_signed_numeral_of :: "string \<Rightarrow> int \<Rightarrow> bool" where
  "is_signed_numeral_of s i =
     (if i < 0 then s \<noteq> [] \<and> hd s = CHR ''-'' \<and> is_decimal_numeral_of (tl s) (nat (- i))
      else is_decimal_numeral_of s (nat i))"

text \<open>
  The text of a display row: the line that \<open>formatRow\<close> returns whenever it returns one
  (lemma \<open>formatRow_returns\<close>), written without the length checks.
\<close>

definition rowText ::
  "('k, 'v) TDisplayItem \<Rightarrow> ('k, 'v) LCDDisplayController \<Rightarrow> size_t \<Rightarrow> string" where
  "rowText T s rowIndex =
     (let itemIndex = windowStartIndex s + rowIndex;
          line0 = [if rowIndex = getNavigatorRowInWindow s
                   then navigatorChar (config s) else CHR '' ''];
          line1 =
            (if unat itemIndex < length (items s)
             then line0 @ getFormattedKey T (items s ! unat itemIndex)
                    @ [separatorChar (config s)]
                    @ getFormattedValue T (items s ! unat itemIndex)
             else
               (let remainingSpace =
                      (if columns (config s) > 1 then columns (config s) - 1 else 0)
                in line0 @ replicate (unat remainingSpace) CHR '' ''))
      in if length line1 < unat (columns (config s))
         then line1 @ replicate (unat (columns (config s)) - length line1) CHR '' ''
         else if length line1 > unat (columns (config s))
         then take (unat (columns (config s))) line1
         else line1)"

text \<open>
  The frame that \<open>render\<close> pushes in a state when it does not throw: the lines of its
  \<open>rows\<close> rows, top to bottom, and the column count.
\<close>

definition currentFrame ::
  "('k, 'v) TDisplayItem \<Rightarrow> ('k, 'v) LCDDisplayController \<Rightarrow> frame" where
  "currentFrame T s =
     (map (\<lambda>r. rowText T s (of_nat r)) [0..<unat (rows (config s))], columns (config s))"

text \<open>
  The display is within what the containers can hold: the vector can hold \<open>rows\<close>
  lines, a string can hold \<open>columns\<close> characters (and at least the cursor cell), and,
  when there are records to show, a string can hold the cursor, a key, the separator and
  a value.
\<close>

definition frame_fits ::
  "Platform \<Rightarrow> ('k, 'v) TDisplayItem \<Rightarrow> ('k, 'v) LCDDisplayController \<Rightarrow> bool" where
  "frame_fits P T s =
     (rows (config s) \<le> vector_max_size P
      \<and> columns (config s) \<le> string_max_size P
      \<and> 0 < string_max_size P
      \<and> (items s \<noteq> [] \<longrightarrow>
           1 + unat (KeyWidth T) + 1 + unat (ValueWidth T) \<le> unat (string_max_size P)))"

text \<open>The exception that \<open>validateItemIndex\<close> throws.\<close>

definition index_error :: exception where
  "index_error = out_of_range ''Item index out of range''"

text \<open>
  The window invariant of the specification: the selection lies inside the window, and
  the window does not reach beyond the end of the store (or beyond \<open>rows\<close>, when the
  store is shorter than the display).
\<close>

definition window_invariant :: "('k, 'v) LCDDisplayController \<Rightarrow> bool" where
  "window_invariant s =
     (unat (windowStartIndex s) \<le> unat (selectedItemIndex s)
      \<and> unat (selectedItemIndex s) < unat (windowStartIndex s) + unat (rows (config s))
      \<and> unat (windowStartIndex s) + unat (rows (config s))
          \<le> max (length (items s)) (unat (rows (config s))))"

text \<open>
  Sequences of \<open>navigateUp\<close> and \<open>navigateDown\<close> calls; each call acts on the state the
  previous one left, whether it returned or threw.
\<close>

datatype navigation = Up | Down

fun navigate ::
  "Platform \<Rightarrow> ('k, 'v) TDisplayItem \<Rightarrow> navigation \<Rightarrow> ('k, 'v) LCDDisplayController
     \<Rightarrow> (exception + bool) \<times> ('k, 'v) LCDDisplayController" where
  "navigate P T Up s = navigateUp P T s"
| "navigate P T Down s = navigateDown P T s"

fun navigateAll ::
  "Platform \<Rightarrow> ('k, 'v) TDisplayItem \<Rightarrow> navigation list \<Rightarrow> ('k, 'v) LCDDisplayController
     \<Rightarrow> ('k, 'v) LCDDisplayController" where
  "navigateAll P T [] s = s"
| "navigateAll P T (c # cs) s = navigateAll P T cs (snd (navigate P T c s))"

text \<open>
  The states of a controller: the state a successful construction leaves, and every state
  that a public member function leaves behind, by returning or by throwing. The store
  handed to the constructor is a \<open>std::vector\<close>, so its size fits \<open>size_t\<close>. (\<open>getItems\<close>
  hands out the store by reference; writes through that reference are outside this
  model.)
\<close>

inductive reachable ::
  "Platform \<Rightarrow> ('k, 'v) TDisplayItem \<Rightarrow> ('k, 'v) LCDDisplayController \<Rightarrow> bool"
  for P T where
  constructed:
    "length its < 2 ^ 64 \<Longrightarrow> LCDDisplayController_ctor T its rend cfg = Inr s
     \<Longrightarrow> reachable P T s"
| after_render: "reachable P T s \<Longrightarrow> reachable P T (snd (render P T s))"
| after_navigateUp: "reachable P T s \<Longrightarrow> reachable P T (snd (navigateUp P T s))"
| after_navigateDown: "reachable P T s \<Longrightarrow> reachable P T (snd (navigateDown P T s))"
| after_selectItem: "reachable P T s \<Longrightarrow> reachable P T (snd (selectItem P T s))"
| after_deselectItem: "reachable P T s \<Longrightarrow> reachable P T (snd (deselectItem P T s))"
| after_setCurrentValue:
    "reachable P T s \<Longrightarrow> reachable P T (snd (setCurrentValue P T v s))"

code_pred reachable .

text \<open>
  What every such state satisfies, whatever the configuration: the selection addresses a
  record (or is 0 in an empty store), the window starts at most one past the selection,
  and no sum of the window arithmetic exceeds \<open>size_t\<close>.
\<close>

definition consistent :: "('k, 'v) LCDDisplayController \<Rightarrow> bool" where
  "consistent s =
     (length (items s) < 2 ^ 64 \<and>
      (if items s = [] then selectedItemIndex s = 0 \<and> windowStartIndex s = 0
       else unat (selectedItemIndex s) < length (items s)
            \<and> unat (windowStartIndex s) \<le> unat (selectedItemIndex s) + 1
            \<and> unat (windowStartIndex s) + unat (rows (config s))
                \<le> max (length (items s)) (unat (rows (config s)))))"

section \<open>Test fixtures\<close>

text \<open>
  The limits of GNU libstdc++ on a 64-bit target, where \<open>sizeof(std::string)\<close> is 32:
  \<open>PTRDIFF_MAX / 32\<close> for the vector of lines and \<open>(PTRDIFF_MAX - 1) / 2\<close> for a string.
\<close>

definition libstdcxx :: Platform where
  "libstdcxx = \<lparr>vector_max_size = 288230376151711743, string_max_size = 4611686018427387903\<rparr>"

text \<open>\<open>createItems\<close> of ScrollingTests.cpp: records \<open>Item0\<close>, \<open>Item1\<close>, ... with values 0, 1, ...\<close>

definition createItems :: "nat \<Rightarrow> (string, c_int) DisplayItem list" where
  "createItems count = map (\<lambda>i. \<lparr>key = ''Item'' @ decimal i, value = of_nat i\<rparr>) [0..<count]"

section \<open>Evaluation on concrete inputs\<close>

lemma replicate_numeral: "replicate (numeral k) x = x # replicate (pred_numeral k) x"
  by (simp add: numeral_eq_Suc)

lemmas item_eval =
  TestDisplayItem8_def TestDisplayItem_def InventoryDisplayItem_def toString_def
  ostream_string_def ostream_int_def ostream_unsigned_def ostream_char_def
  toString_uint8_def toString_int8_def decimal.simps char_of_eq_iff
  getFormattedKey_def getFormattedValue_def formatToWidth_def replicate_numeral

section \<open>Fixed-width formatting\<close>

lemma formatToWidth_length: "length (formatToWidth text width) = unat width"
  unfolding formatToWidth_def by auto








section \<open>Byte-sized values\<close>

lemma decimal_small: "n < 10 \<Longrightarrow> decimal n = [char_of (48 + n)]"
  by (subst decimal.simps) simp

lemma decimal_large:
  "\<not> n < 10 \<Longrightarrow> decimal n = decimal (n div 10) @ [char_of (48 + n mod 10)]"
  by (subst decimal.simps) simp

lemma decimal_nonempty: "decimal n \<noteq> []"
  by (cases "n < 10") (simp_all add: decimal_small decimal_large)

lemma of_char_digit: "d < 10 \<Longrightarrow> (of_char (char_of (48 + d :: nat)) :: nat) = 48 + d"
  by (simp add: of_char_of)

lemma decimal_digits: "list_all is_digit (decimal n)"
proof (induction n rule: decimal.induct)
  case (1 n)
  show ?case
  proof (cases "n < 10")
    case True
    then show ?thesis by (simp add: decimal_small is_digit_def of_char_digit)
  next
    case False
    have "n mod 10 < 10" by simp
    then have "is_digit (char_of (48 + n mod 10))"
      unfolding is_digit_def by (simp only: of_char_digit) simp
    with False 1 show ?thesis by (simp add: decimal_large)
  qed
qed

lemma read_decimal_snoc: "read_decimal (s @ [c]) = 10 * read_decimal s + (of_char c - 48)"
  by (simp add: read_decimal_def)

lemma read_decimal_decimal: "read_decimal (decimal n) = n"
proof (induction n rule: decimal.induct)
  case (1 n)
  show ?case
  proof (cases "n < 10")
    case True
    then show ?thesis by (simp add: decimal_small read_decimal_def of_char_digit)
  next
    case False
    have "n mod 10 < 10" by simp
    then have "(of_char (char_of (48 + n mod 10)) :: nat) = 48 + n mod 10"
      by (rule of_char_digit)
    with False 1 show ?thesis by (simp add: decimal_large read_decimal_snoc)
  qed
qed

lemma hd_decimal: "0 < n \<Longrightarrow> hd (decimal n) \<noteq> CHR ''0''"
proof (induction n rule: decimal.induct)
  case (1 n)
  show ?case
  proof (cases "n < 10")
    case True
    have "char_of (48 + n) \<noteq> CHR ''0''"
    proof
      assume "char_of (48 + n) = CHR ''0''"
      then have "(of_char (char_of (48 + n)) :: nat) = of_char CHR ''0''" by simp
      then show False using True 1(2) by (simp add: of_char_digit)
    qed
    then show ?thesis using True by (simp add: decimal_small)
  next
    case False
    then have "0 < n div 10" by simp
    with False 1 show ?thesis by (simp add: decimal_large decimal_nonempty)
  qed
qed

lemma decimal_is_numeral: "is_decimal_numeral_of (decimal n) n"
proof -
  have "length (decimal n) > 1 \<longrightarrow> hd (decimal n) \<noteq> CHR ''0''"
  proof (cases "n = 0")
    case True
    then show ?thesis by (simp add: decimal_small)
  next
    case False
    then show ?thesis by (simp add: hd_decimal)
  qed
  then show ?thesis
    by (simp add: is_decimal_numeral_of_def decimal_nonempty decimal_digits read_decimal_decimal)
qed

lemma decimal_not_raw: "n < 256 \<Longrightarrow> decimal n \<noteq> [char_of n]"
proof (cases "n < 10")
  case True
  assume "n < 256"
  have "char_of (48 + n) \<noteq> char_of n"
  proof
    assume "char_of (48 + n) = char_of n"
    then have "(of_char (char_of (48 + n)) :: nat) = of_char (char_of n)" by simp
    then show False using True by (simp add: of_char_of)
  qed
  then show ?thesis using True by (simp add: decimal_small)
next
  case False
  have "decimal n = decimal (n div 10) @ [char_of (48 + n mod 10)]"
    using False by (rule decimal_large)
  then have "length (decimal n) = length (decimal (n div 10)) + 1"
    by simp
  moreover have "length (decimal (n div 10)) \<noteq> 0"
    using decimal_nonempty[of "n div 10"] by simp
  ultimately have "length (decimal n) \<noteq> 1" by simp
  then show ?thesis by auto
qed

lemma unat_widen: "unat (ucast (v :: 8 word) :: 32 word) = unat v"
  by (simp add: unsigned_ucast_eq take_bit_nat_eq_self order_less_trans[OF unsigned_less])

lemma sint_widen: "sint (scast (v :: 8 word) :: 32 word) = sint v"
  by (simp add: sint_up_scast is_up)


lemma sint_nonneg_byte:
  fixes v :: "8 word"
  assumes "\<not> sint v < 0"
  shows "nat (sint v) = unat v"
proof -
  have nb: "\<not> bit (uint v) 7" using assms by (simp add: sint_uint)
  have "sint v = take_bit 7 (uint v)"
    using nb by (simp add: sint_uint signed_take_bit_eq_if_positive)
  moreover have "take_bit 8 (uint v) = uint v"
    by (rule take_bit_int_eq_self) (use uint_lt2p[of v] in simp_all)
  moreover have "take_bit 8 (uint v) = take_bit 7 (uint v)"
    using nb take_bit_Suc_from_most[of 7 "uint v"] by simp
  ultimately have "sint v = uint v" by simp
  then show ?thesis by simp
qed

lemma toString_uint8_decimal: "toString_uint8 v = decimal (unat v)"
  by (simp add: toString_uint8_def ostream_unsigned_def unat_widen)

lemma toString_int8_decimal:
  "toString_int8 v =
     (if sint v < 0 then CHR ''-'' # decimal (nat (- sint v)) else decimal (nat (sint v)))"
  by (simp add: toString_int8_def ostream_int_def sint_widen)

lemma toString_uint8_not_raw: "toString_uint8 v \<noteq> ostream_char v"
proof -
  have "unat v < 256" using unsigned_less[of v] by simp
  then show ?thesis
    by (simp add: toString_uint8_decimal ostream_char_def decimal_not_raw)
qed

lemma toString_int8_not_raw: "toString_int8 v \<noteq> ostream_char v"
proof (cases "sint v < 0")
  case True
  then show ?thesis
    by (simp add: toString_int8_decimal ostream_char_def decimal_nonempty)
next
  case False
  then have "nat (sint v) = unat v"
    by (rule sint_nonneg_byte)
  moreover have "unat v < 256" using unsigned_less[of v] by simp
  ultimately show ?thesis using False
    by (simp add: toString_int8_decimal ostream_char_def decimal_not_raw)
qed

text \<open>
  C9: the text of an 8-bit value, unsigned or signed, is the decimal numeral of the number
  it holds, and never the one-character string of the character with that code, which
  the stream insertion of a \<open>char\<close> type would give. The inventory item formats its
  value through the \<open>uint8_t\<close> overload; 65 becomes \<open>65\<close>, not \<open>A\<close>.
\<close>

theorem byte_values_render_as_decimal_numerals:
  "is_decimal_numeral_of (toString_uint8 v) (unat v)
   \<and> is_signed_numeral_of (toString_int8 v) (sint v)
   \<and> toString_uint8 v \<noteq> ostream_char v
   \<and> toString_int8 v \<noteq> ostream_char v
   \<and> getFormattedValue InventoryDisplayItem \<lparr>key = k, value = v\<rparr>
       = formatToWidth (toString_uint8 v) 3
   \<and> toString_uint8 65 = ''65'' \<and> ostream_char 65 = ''A''"
proof -
  have "is_signed_numeral_of (toString_int8 v) (sint v)"
    by (simp add: is_signed_numeral_of_def toString_int8_decimal decimal_is_numeral)
  moreover have "toString_uint8 65 = ''65''"
    by (simp add: toString_uint8_def ostream_unsigned_def decimal.simps char_of_eq_iff)
  moreover have "ostream_char 65 = ''A''"
    by (simp add: ostream_char_def char_of_eq_iff)
  ultimately show ?thesis
    by (simp add: toString_uint8_decimal decimal_is_numeral toString_uint8_not_raw[simplified toString_uint8_decimal]
        toString_int8_not_raw getFormattedValue_def InventoryDisplayItem_def)
qed

theorem byte_values_render_as_decimal_numerals_witness:
  "is_decimal_numeral_of (toString_uint8 65) (unat (65 :: uint8_t))
   \<and> is_signed_numeral_of (toString_int8 65) (sint (65 :: int8_t))
   \<and> toString_uint8 65 \<noteq> ostream_char 65
   \<and> toString_int8 65 \<noteq> ostream_char 65
   \<and> getFormattedValue InventoryDisplayItem \<lparr>key = ''Sword'', value = 65\<rparr>
       = formatToWidth (toString_uint8 65) 3
   \<and> toString_uint8 65 = ''65'' \<and> ostream_char 65 = ''A''"
  by (rule byte_values_render_as_decimal_numerals)

section \<open>Arithmetic of \<open>size_t\<close>\<close>

lemma size_t_bound: "unat (w :: size_t) < 2 ^ 64"
  using unsigned_less [of w] by simp

lemma size_t_add: "unat (a :: size_t) + unat b < 2 ^ 64 \<Longrightarrow> unat (a + b) = unat a + unat b"
  using unat_add_lem [of a b] by simp

lemma size_t_succ: "unat (a :: size_t) + 1 < 2 ^ 64 \<Longrightarrow> unat (a + 1) = unat a + 1"
  using size_t_add [of a 1] by simp

lemma size_t_sub: "unat b \<le> unat (a :: size_t) \<Longrightarrow> unat (a - b) = unat a - unat b"
  by (simp add: unat_sub word_le_nat_alt)

lemma size_t_pred: "0 < (a :: size_t) \<Longrightarrow> unat (a - 1) = unat a - 1"
  using size_t_sub [of 1 a] by (simp add: word_less_nat_alt Suc_le_eq)

lemma size_t_of_nat: "n < 2 ^ 64 \<Longrightarrow> unat (of_nat n :: size_t) = n"
  by (simp add: unat_of_nat)

section \<open>Strings and exceptions\<close>

lemma and_then_Inr [simp]: "and_then (Inr x) f = f x"
  by (simp add: and_then_def)

lemma and_then_Inl [simp]: "and_then (Inl e) f = Inl e"
  by (simp add: and_then_def)

lemma string_fill_fits:
  "count \<le> unat (string_max_size P) \<Longrightarrow> string_fill P count ch = Inr (replicate count ch)"
  by (simp add: string_fill_def)

lemma string_append_fits:
  "length line + length text \<le> unat (string_max_size P)
   \<Longrightarrow> string_append P line text = Inr (line @ text)"
  by (simp add: string_append_def)

lemma string_fill_cases:
  "string_fill P count ch = Inl length_error
   \<or> string_fill P count ch = Inr (replicate count ch)"
  by (simp add: string_fill_def)

lemma string_append_cases:
  "string_append P line text = Inl length_error
   \<or> string_append P line text = Inr (line @ text)"
  by (simp add: string_append_def)

lemma and_then_cases:
  assumes "r = Inl length_error \<or> r = Inr x"
    and "f x = Inl length_error \<or> f x = Inr y"
  shows "and_then r f = Inl length_error \<or> and_then r f = Inr y"
  using assms by auto

lemma returning_snd [simp]: "snd (returning x r) = snd r"
  by (simp add: returning_def split: sum.splits)

lemma returning_Inr: "fst r = Inr u \<Longrightarrow> returning x r = (Inr x, snd r)"
  by (simp add: returning_def)

lemma returning_Inl: "fst r = Inl e \<Longrightarrow> returning x r = (Inl e, snd r)"
  by (simp add: returning_def)

section \<open>Rendering\<close>

lemma formatRow_cases:
  "formatRow P T s r = Inl length_error \<or> formatRow P T s r = Inr (rowText T s r)"
  by (simp add: formatRow_def rowText_def getNavigatorRowInWindow_def Let_def and_then_def
      string_fill_def string_append_def split: sum.splits)

lemma formatRow_returns: "formatRow P T s r = Inr line \<Longrightarrow> line = rowText T s r"
  using formatRow_cases [of P T s r] by simp

lemma formatRow_throws: "formatRow P T s r = Inl e \<Longrightarrow> e = length_error"
  using formatRow_cases [of P T s r] by simp

lemma formatRow_fits:
  assumes "frame_fits P T s"
  shows "formatRow P T s r = Inr (rowText T s r)"
proof -
  let ?max = "unat (string_max_size P)"
  have cols: "unat (columns (config s)) \<le> ?max" and pos: "0 < ?max"
    and item: "items s \<noteq> [] \<Longrightarrow> 1 + unat (KeyWidth T) + 1 + unat (ValueWidth T) \<le> ?max"
    using assms by (simp_all add: frame_fits_def word_le_nat_alt word_less_nat_alt)
  have "formatRow P T s r \<noteq> Inl length_error"
  proof (cases "unat (windowStartIndex s + r) < length (items s)")
    case True
    then have "items s \<noteq> []"
      by auto
    then have "1 + unat (KeyWidth T) + 1 + unat (ValueWidth T) \<le> ?max"
      by (rule item)
    then show ?thesis
      using True cols
      by (simp add: formatRow_def getNavigatorRowInWindow_def Let_def string_fill_def
          string_append_def getFormattedKey_def getFormattedValue_def formatToWidth_length;
          arith)
  next
    case False
    show ?thesis
    proof (cases "1 < columns (config s)")
      case True
      then have wide: "1 < unat (columns (config s))"
        by (simp add: word_less_nat_alt)
      then have "0 < columns (config s)"
        by (simp add: word_less_nat_alt)
      then have "unat (columns (config s) - 1) = unat (columns (config s)) - 1"
        by (rule size_t_pred)
      then show ?thesis
        using False True wide cols
        by (simp add: formatRow_def getNavigatorRowInWindow_def Let_def string_fill_def
            string_append_def; arith)
    next
      case narrow: False
      then have "unat (columns (config s)) \<le> 1"
        by (simp add: word_less_nat_alt)
      then show ?thesis
        using False narrow pos
        by (simp add: formatRow_def getNavigatorRowInWindow_def Let_def string_fill_def
            string_append_def; arith)
    qed
  qed
  then show ?thesis
    using formatRow_cases [of P T s r] by simp
qed

lemma formatRow_cong:
  assumes "config s' = config s" and "items s' = items s"
    and "selectedItemIndex s' = selectedItemIndex s"
    and "windowStartIndex s' = windowStartIndex s"
  shows "formatRow P T s' r = formatRow P T s r"
  unfolding formatRow_def getNavigatorRowInWindow_def assms ..

lemma rowText_cong:
  assumes "config s' = config s" and "items s' = items s"
    and "selectedItemIndex s' = selectedItemIndex s"
    and "windowStartIndex s' = windowStartIndex s"
  shows "rowText T s' r = rowText T s r"
  unfolding rowText_def getNavigatorRowInWindow_def assms ..

lemma rowText_length: "length (rowText T s r) = unat (columns (config s))"
  by (simp add: rowText_def Let_def)

lemma render_loop_step:
  assumes "i < rows (config s)"
  shows "render_loop P T s i lines =
     (case formatRow P T s i of
        Inl e \<Rightarrow> Inl e
      | Inr line \<Rightarrow> render_loop P T s (i + 1) (lines @ [line]))"
    and "unat (i + 1) = Suc (unat i)" and "unat i < unat (rows (config s))"
proof -
  show "render_loop P T s i lines =
     (case formatRow P T s i of
        Inl e \<Rightarrow> Inl e
      | Inr line \<Rightarrow> render_loop P T s (i + 1) (lines @ [line]))"
    using assms by (subst render_loop.simps) simp
  show lt: "unat i < unat (rows (config s))"
    using assms by (simp add: word_less_nat_alt)
  have "unat i + 1 < 2 ^ 64"
    using lt size_t_bound [of "rows (config s)"] by simp
  then show "unat (i + 1) = Suc (unat i)"
    by (simp add: size_t_succ)
qed

lemma render_loop_done:
  "\<not> i < rows (config s) \<Longrightarrow> render_loop P T s i lines = Inr lines"
  by (subst render_loop.simps) simp

lemma render_loop_cases:
  "unat i \<le> unat (rows (config s)) \<Longrightarrow>
   render_loop P T s i lines = Inl length_error
   \<or> render_loop P T s i lines
       = Inr (lines @ map (\<lambda>r. rowText T s (of_nat r)) [unat i..<unat (rows (config s))])"
proof (induction P T s i lines rule: render_loop.induct)
  case (1 P T s i lines)
  show ?case
  proof (cases "i < rows (config s)")
    case True
    note step = render_loop_step [OF True]
    show ?thesis
    proof (cases "formatRow P T s i")
      case (Inl e)
      then have "e = length_error"
        by (rule formatRow_throws)
      then show ?thesis
        using Inl by (simp add: step(1))
    next
      case (Inr line)
      then have line: "line = rowText T s i"
        by (rule formatRow_returns)
      have "unat (i + 1) \<le> unat (rows (config s))"
        using step(2,3) by simp
      from "1.IH" [OF True Inr this]
      have "render_loop P T s (i + 1) (lines @ [line]) = Inl length_error
          \<or> render_loop P T s (i + 1) (lines @ [line])
            = Inr ((lines @ [line])
                @ map (\<lambda>r. rowText T s (of_nat r)) [Suc (unat i)..<unat (rows (config s))])"
        by (simp add: step(2))
      moreover have "(lines @ [line])
            @ map (\<lambda>r. rowText T s (of_nat r)) [Suc (unat i)..<unat (rows (config s))]
          = lines @ map (\<lambda>r. rowText T s (of_nat r)) [unat i..<unat (rows (config s))]"
        using step(3) by (simp add: upt_conv_Cons line)
      ultimately show ?thesis
        using Inr by (simp add: step(1))
    qed
  next
    case False
    then have "unat i = unat (rows (config s))"
      using "1.prems" by (simp add: word_less_nat_alt)
    then show ?thesis
      using False by (simp add: render_loop_done)
  qed
qed

lemma render_loop_fits:
  "frame_fits P T s \<Longrightarrow> unat i \<le> unat (rows (config s)) \<Longrightarrow>
   render_loop P T s i lines
     = Inr (lines @ map (\<lambda>r. rowText T s (of_nat r)) [unat i..<unat (rows (config s))])"
proof (induction P T s i lines rule: render_loop.induct)
  case (1 P T s i lines)
  show ?case
  proof (cases "i < rows (config s)")
    case True
    note step = render_loop_step [OF True]
    have row: "formatRow P T s i = Inr (rowText T s i)"
      using "1.prems"(1) by (rule formatRow_fits)
    have "unat (i + 1) \<le> unat (rows (config s))"
      using step(2,3) by simp
    from "1.IH" [OF True row "1.prems"(1) this]
    have "render_loop P T s (i + 1) (lines @ [rowText T s i])
        = Inr ((lines @ [rowText T s i])
            @ map (\<lambda>r. rowText T s (of_nat r)) [Suc (unat i)..<unat (rows (config s))])"
      by (simp add: step(2))
    moreover have "(lines @ [rowText T s i])
          @ map (\<lambda>r. rowText T s (of_nat r)) [Suc (unat i)..<unat (rows (config s))]
        = lines @ map (\<lambda>r. rowText T s (of_nat r)) [unat i..<unat (rows (config s))]"
      using step(3) by (simp add: upt_conv_Cons)
    ultimately show ?thesis
      by (simp add: step(1) row)
  next
    case False
    then have "unat i = unat (rows (config s))"
      using "1.prems" by (simp add: word_less_nat_alt)
    then show ?thesis
      using False by (simp add: render_loop_done)
  qed
qed

lemma render_loop_cong:
  assumes "config s' = config s" and "items s' = items s"
    and "selectedItemIndex s' = selectedItemIndex s"
    and "windowStartIndex s' = windowStartIndex s"
  shows "render_loop P T s' i lines = render_loop P T s i lines"
  using assms
proof (induction P T s i lines rule: render_loop.induct)
  case (1 P T s i lines)
  note same = "1.prems"
  have row: "formatRow P T s' i = formatRow P T s i"
    using same by (rule formatRow_cong)
  show ?case
  proof (cases "i < rows (config s)")
    case True
    then have True': "i < rows (config s')"
      by (simp add: same)
    show ?thesis
    proof (cases "formatRow P T s i")
      case (Inl e)
      then show ?thesis
        by (simp add: render_loop_step(1) [OF True] render_loop_step(1) [OF True'] row)
    next
      case (Inr line)
      then show ?thesis
        using "1.IH" [OF True Inr same]
        by (simp add: render_loop_step(1) [OF True] render_loop_step(1) [OF True'] row)
    qed
  next
    case False
    then have "\<not> i < rows (config s')"
      by (simp add: same)
    then show ?thesis
      using False by (simp add: render_loop_done)
  qed
qed

lemma render_cases:
  "render P T s = (Inl length_error, s)
   \<or> render P T s = (Inr (), s\<lparr>renderer := renderer s @ [currentFrame T s]\<rparr>)"
  using render_loop_cases [of 0 s P T "[]"]
  by (auto simp add: render_def currentFrame_def)

lemma render_fits:
  assumes "frame_fits P T s"
  shows "render P T s = (Inr (), s\<lparr>renderer := renderer s @ [currentFrame T s]\<rparr>)"
proof -
  have "\<not> vector_max_size P < rows (config s)"
    using assms by (simp add: frame_fits_def not_less)
  moreover have "render_loop P T s 0 [] = Inr (fst (currentFrame T s))"
    using render_loop_fits [OF assms, of 0 "[]"] by (simp add: currentFrame_def)
  ultimately show ?thesis
    by (simp add: render_def currentFrame_def)
qed

lemma render_rows_exceed:
  "vector_max_size P < rows (config s) \<Longrightarrow> render P T s = (Inl length_error, s)"
  by (simp add: render_def)

lemma render_cong:
  assumes "config s' = config s" and "items s' = items s"
    and "selectedItemIndex s' = selectedItemIndex s"
    and "windowStartIndex s' = windowStartIndex s"
  shows "fst (render P T s') = fst (render P T s)"
  by (simp add: render_def assms(1) render_loop_cong [OF assms] split: sum.splits)

lemma render_fields [simp]:
  "config (snd (render P T s)) = config s"
  "items (snd (render P T s)) = items s"
  "selectedItemIndex (snd (render P T s)) = selectedItemIndex s"
  "windowStartIndex (snd (render P T s)) = windowStartIndex s"
  "isSelected (snd (render P T s)) = isSelected s"
  using render_cases [of P T s] by auto

lemma render_trace:
  "renderer (snd (render P T s)) =
     (case fst (render P T s) of
        Inl e \<Rightarrow> renderer s
      | Inr u \<Rightarrow> renderer s @ [currentFrame T s])"
  using render_cases [of P T s] by auto

lemma render_throws: "fst (render P T s) = Inl e \<Longrightarrow> e = length_error"
  using render_cases [of P T s] by auto

lemma consistent_render [simp]: "consistent (snd (render P T s)) = consistent s"
  by (simp add: consistent_def)

section \<open>The window\<close>

lemma adjustWindow_fields [simp]:
  "config (adjustWindow s) = config s"
  "items (adjustWindow s) = items s"
  "renderer (adjustWindow s) = renderer s"
  "selectedItemIndex (adjustWindow s) = selectedItemIndex s"
  "isSelected (adjustWindow s) = isSelected s"
  by (simp_all add: adjustWindow_def)

lemma adjustWindow_nat:
  assumes ne: "items s \<noteq> []"
    and nowrap: "unat (windowStartIndex s) + unat (rows (config s)) < 2 ^ 64"
    and room: "unat (selectedItemIndex s) + 1 < 2 ^ 64"
  shows "unat (windowStartIndex (adjustWindow s)) =
     (if unat (selectedItemIndex s) < unat (windowStartIndex s)
      then unat (selectedItemIndex s)
      else if unat (windowStartIndex s) + unat (rows (config s)) \<le> unat (selectedItemIndex s)
      then unat (selectedItemIndex s) - unat (rows (config s)) + 1
      else unat (windowStartIndex s))"
proof -
  let ?sel = "selectedItemIndex s" and ?ws = "windowStartIndex s" and ?rows = "rows (config s)"
  have sum: "unat (?ws + ?rows) = unat ?ws + unat ?rows"
    using nowrap by (rule size_t_add)
  show ?thesis
  proof (cases "unat ?sel < unat ?ws")
    case True
    then show ?thesis
      using ne by (simp add: adjustWindow_def word_less_nat_alt)
  next
    case above: False
    show ?thesis
    proof (cases "unat ?ws + unat ?rows \<le> unat ?sel")
      case True
      then have "unat ?rows \<le> unat ?sel" by simp
      then have d: "unat (?sel - ?rows) = unat ?sel - unat ?rows"
        by (rule size_t_sub)
      then have "unat (?sel - ?rows) + 1 < 2 ^ 64"
        using room by simp
      then have "unat (?sel - ?rows + 1) = unat ?sel - unat ?rows + 1"
        using d by (simp add: size_t_succ)
      then show ?thesis
        using ne above True by (simp add: adjustWindow_def word_less_nat_alt word_le_nat_alt sum)
    next
      case False
      then show ?thesis
        using ne above by (simp add: adjustWindow_def word_less_nat_alt word_le_nat_alt sum)
    qed
  qed
qed

lemma adjustWindow_unchanged:
  assumes ne: "items s \<noteq> []"
    and nowrap: "unat (windowStartIndex s) + unat (rows (config s)) < 2 ^ 64"
    and lo: "unat (windowStartIndex s) \<le> unat (selectedItemIndex s)"
    and hi: "unat (selectedItemIndex s) < unat (windowStartIndex s) + unat (rows (config s))"
  shows "adjustWindow s = s"
proof -
  have "unat (windowStartIndex s + rows (config s))
      = unat (windowStartIndex s) + unat (rows (config s))"
    using nowrap by (rule size_t_add)
  then show ?thesis
    using ne lo hi by (simp add: adjustWindow_def word_less_nat_alt word_le_nat_alt)
qed

lemma navigateDown_refused:
  "\<not> (items s \<noteq> [] \<and> unat (selectedItemIndex s) < length (items s) - 1)
   \<Longrightarrow> navigateDown P T s = (Inr False, s)"
  by (auto simp add: navigateDown_def)

lemma navigateDown_moves:
  assumes c: "consistent s" and ne: "items s \<noteq> []"
    and lt: "unat (selectedItemIndex s) < length (items s) - 1"
  shows "\<exists>s1. navigateDown P T s = returning True (render P T s1)
     \<and> config s1 = config s \<and> items s1 = items s \<and> renderer s1 = renderer s
     \<and> isSelected s1 = isSelected s
     \<and> unat (selectedItemIndex s1) = unat (selectedItemIndex s) + 1
     \<and> (if unat (windowStartIndex s) + unat (rows (config s))
             \<le> unat (selectedItemIndex s) + 1
          then unat (windowStartIndex s1)
             = unat (selectedItemIndex s) + 1 - unat (rows (config s)) + 1
          else windowStartIndex s1 = windowStartIndex s)"
proof -
  let ?s0 = "s\<lparr>selectedItemIndex := selectedItemIndex s + 1\<rparr>"
  let ?s1 = "adjustWindow ?s0"
  have len: "length (items s) < 2 ^ 64"
    and near: "unat (windowStartIndex s) \<le> unat (selectedItemIndex s) + 1"
    and fit: "unat (windowStartIndex s) + unat (rows (config s))
        \<le> max (length (items s)) (unat (rows (config s)))"
    using c ne by (simp_all add: consistent_def)
  have sel: "unat (selectedItemIndex s + 1) = unat (selectedItemIndex s) + 1"
    using lt len by (simp add: size_t_succ)
  have nowrap: "unat (windowStartIndex ?s0) + unat (rows (config ?s0)) < 2 ^ 64"
    using fit len size_t_bound [of "rows (config s)"] by simp
  have room: "unat (selectedItemIndex ?s0) + 1 < 2 ^ 64"
    using lt len sel by simp
  have ne0: "items ?s0 \<noteq> []"
    using ne by simp
  have ws: "unat (windowStartIndex ?s1) =
      (if unat (windowStartIndex s) + unat (rows (config s)) \<le> unat (selectedItemIndex s) + 1
       then unat (selectedItemIndex s) + 1 - unat (rows (config s)) + 1
       else unat (windowStartIndex s))"
    using adjustWindow_nat [OF ne0 nowrap room] near by (simp add: sel)
  have "navigateDown P T s = returning True (render P T ?s1)"
    using ne lt by (simp add: navigateDown_def)
  moreover have "unat (selectedItemIndex ?s1) = unat (selectedItemIndex s) + 1"
    by (simp add: sel)
  moreover have "if unat (windowStartIndex s) + unat (rows (config s))
             \<le> unat (selectedItemIndex s) + 1
          then unat (windowStartIndex ?s1)
             = unat (selectedItemIndex s) + 1 - unat (rows (config s)) + 1
          else windowStartIndex ?s1 = windowStartIndex s"
    using ws by (simp add: word_unat_eq_iff)
  ultimately show ?thesis
    by (intro exI [of _ ?s1]) simp
qed

lemma navigateUp_refused: "\<not> 0 < selectedItemIndex s \<Longrightarrow> navigateUp P T s = (Inr False, s)"
  by (simp add: navigateUp_def)

lemma navigateUp_moves:
  assumes c: "consistent s" and pos: "0 < selectedItemIndex s"
  shows "\<exists>s1. navigateUp P T s = returning True (render P T s1)
     \<and> config s1 = config s \<and> items s1 = items s \<and> renderer s1 = renderer s
     \<and> isSelected s1 = isSelected s
     \<and> unat (selectedItemIndex s1) = unat (selectedItemIndex s) - 1
     \<and> unat (windowStartIndex s1) =
        (if unat (selectedItemIndex s) - 1 < unat (windowStartIndex s)
         then unat (selectedItemIndex s) - 1
         else if unat (windowStartIndex s) + unat (rows (config s))
                 \<le> unat (selectedItemIndex s) - 1
         then unat (selectedItemIndex s) - 1 - unat (rows (config s)) + 1
         else unat (windowStartIndex s))"
proof -
  let ?s0 = "s\<lparr>selectedItemIndex := selectedItemIndex s - 1\<rparr>"
  let ?s1 = "adjustWindow ?s0"
  have ne: "items s \<noteq> []"
    using c pos by (auto simp add: consistent_def)
  have len: "length (items s) < 2 ^ 64"
    and fit: "unat (windowStartIndex s) + unat (rows (config s))
        \<le> max (length (items s)) (unat (rows (config s)))"
    using c ne by (simp_all add: consistent_def)
  have sel: "unat (selectedItemIndex s - 1) = unat (selectedItemIndex s) - 1"
    using pos by (rule size_t_pred)
  have nowrap: "unat (windowStartIndex ?s0) + unat (rows (config ?s0)) < 2 ^ 64"
    using fit len size_t_bound [of "rows (config s)"] by simp
  have room: "unat (selectedItemIndex ?s0) + 1 < 2 ^ 64"
    using size_t_bound [of "selectedItemIndex s"] by (simp add: sel)
  have ne0: "items ?s0 \<noteq> []"
    using ne by simp
  have "navigateUp P T s = returning True (render P T ?s1)"
    using pos by (simp add: navigateUp_def)
  moreover have "unat (selectedItemIndex ?s1) = unat (selectedItemIndex s) - 1"
    by (simp add: sel)
  moreover have "unat (windowStartIndex ?s1) =
        (if unat (selectedItemIndex s) - 1 < unat (windowStartIndex s)
         then unat (selectedItemIndex s) - 1
         else if unat (windowStartIndex s) + unat (rows (config s))
                 \<le> unat (selectedItemIndex s) - 1
         then unat (selectedItemIndex s) - 1 - unat (rows (config s)) + 1
         else unat (windowStartIndex s))"
    using adjustWindow_nat [OF ne0 nowrap room] by (simp add: sel)
  ultimately show ?thesis
    by (intro exI [of _ ?s1]) simp
qed

section \<open>Invariants of the navigation state\<close>

lemma consistent_ctor:
  "length its < 2 ^ 64 \<Longrightarrow> LCDDisplayController_ctor T its rend cfg = Inr s
   \<Longrightarrow> consistent s"
  by (auto simp add: LCDDisplayController_ctor_def consistent_def
      split: option.splits if_splits)

lemma consistent_navigateDown:
  assumes c: "consistent s"
  shows "consistent (snd (navigateDown P T s))"
proof (cases "items s \<noteq> [] \<and> unat (selectedItemIndex s) < length (items s) - 1")
  case False
  then show ?thesis
    using c by (simp add: navigateDown_refused)
next
  case True
  then have ne: "items s \<noteq> []"
    and lt: "unat (selectedItemIndex s) < length (items s) - 1"
    by simp_all
  from navigateDown_moves [OF c ne lt, of P T] obtain s1 where
    nav: "navigateDown P T s = returning True (render P T s1)"
    and same: "config s1 = config s" "items s1 = items s"
    and sel: "unat (selectedItemIndex s1) = unat (selectedItemIndex s) + 1"
    and ws: "if unat (windowStartIndex s) + unat (rows (config s))
             \<le> unat (selectedItemIndex s) + 1
          then unat (windowStartIndex s1)
             = unat (selectedItemIndex s) + 1 - unat (rows (config s)) + 1
          else windowStartIndex s1 = windowStartIndex s"
    by blast
  have len: "length (items s) < 2 ^ 64"
    and near: "unat (windowStartIndex s) \<le> unat (selectedItemIndex s) + 1"
    and fit: "unat (windowStartIndex s) + unat (rows (config s))
        \<le> max (length (items s)) (unat (rows (config s)))"
    using c ne by (simp_all add: consistent_def)
  have lt2: "unat (selectedItemIndex s) + 2 \<le> length (items s)"
    using lt by simp
  have "consistent s1"
  proof (cases "unat (windowStartIndex s) + unat (rows (config s))
             \<le> unat (selectedItemIndex s) + 1")
    case True
    then have "unat (windowStartIndex s1)
        = unat (selectedItemIndex s) + 1 - unat (rows (config s)) + 1"
      using ws by simp
    then show ?thesis
      using True ne lt2 len sel same by (simp add: consistent_def)
  next
    case False
    then have "windowStartIndex s1 = windowStartIndex s"
      using ws by simp
    then show ?thesis
      using False ne lt2 len near fit sel same by (simp add: consistent_def)
  qed
  then show ?thesis
    by (simp add: nav)
qed

lemma consistent_navigateUp:
  assumes c: "consistent s"
  shows "consistent (snd (navigateUp P T s))"
proof (cases "0 < selectedItemIndex s")
  case False
  then show ?thesis
    using c by (simp add: navigateUp_refused)
next
  case True
  from navigateUp_moves [OF c True, of P T] obtain s1 where
    nav: "navigateUp P T s = returning True (render P T s1)"
    and same: "config s1 = config s" "items s1 = items s"
    and sel: "unat (selectedItemIndex s1) = unat (selectedItemIndex s) - 1"
    and ws: "unat (windowStartIndex s1) =
        (if unat (selectedItemIndex s) - 1 < unat (windowStartIndex s)
         then unat (selectedItemIndex s) - 1
         else if unat (windowStartIndex s) + unat (rows (config s))
                 \<le> unat (selectedItemIndex s) - 1
         then unat (selectedItemIndex s) - 1 - unat (rows (config s)) + 1
         else unat (windowStartIndex s))"
    by blast
  have ne: "items s \<noteq> []"
    using c True by (auto simp add: consistent_def)
  have len: "length (items s) < 2 ^ 64"
    and inside: "unat (selectedItemIndex s) < length (items s)"
    and fit: "unat (windowStartIndex s) + unat (rows (config s))
        \<le> max (length (items s)) (unat (rows (config s)))"
    using c ne by (simp_all add: consistent_def)
  have "consistent s1"
    using ne len inside fit sel ws same
    by (simp add: consistent_def split: if_splits) arith+
  then show ?thesis
    by (simp add: nav)
qed

lemma consistent_selectItem: "consistent s \<Longrightarrow> consistent (snd (selectItem P T s))"
  by (auto simp add: selectItem_def consistent_def split: if_splits)

lemma consistent_deselectItem: "consistent s \<Longrightarrow> consistent (snd (deselectItem P T s))"
  by (auto simp add: deselectItem_def consistent_def split: if_splits)

lemma consistent_setCurrentValue:
  "consistent s \<Longrightarrow> consistent (snd (setCurrentValue P T v s))"
  by (auto simp add: setCurrentValue_def validateItemIndex_def consistent_def split: if_splits)

lemma reachable_consistent: "reachable P T s \<Longrightarrow> consistent s"
proof (induction rule: reachable.induct)
  case (constructed its rend cfg s)
  then show ?case by (rule consistent_ctor)
next
  case (after_render s)
  then show ?case by simp
next
  case (after_navigateUp s)
  then show ?case by (simp add: consistent_navigateUp)
next
  case (after_navigateDown s)
  then show ?case by (simp add: consistent_navigateDown)
next
  case (after_selectItem s)
  then show ?case by (simp add: consistent_selectItem)
next
  case (after_deselectItem s)
  then show ?case by (simp add: consistent_deselectItem)
next
  case (after_setCurrentValue s v)
  then show ?case by (simp add: consistent_setCurrentValue)
qed

section \<open>Frames\<close>

lemma currentFrame_cong:
  assumes "config s' = config s" and "items s' = items s"
    and "selectedItemIndex s' = selectedItemIndex s"
    and "windowStartIndex s' = windowStartIndex s"
  shows "currentFrame T s' = currentFrame T s"
  by (simp add: currentFrame_def assms rowText_cong [OF assms])

lemma currentFrame_isSelected [simp]: "currentFrame T (s\<lparr>isSelected := b\<rparr>) = currentFrame T s"
  by (rule currentFrame_cong) simp_all

lemma currentFrame_renderer [simp]: "currentFrame T (s\<lparr>renderer := r\<rparr>) = currentFrame T s"
  by (rule currentFrame_cong) simp_all

lemma currentFrame_render [simp]: "currentFrame T (snd (render P T s)) = currentFrame T s"
  by (rule currentFrame_cong) simp_all

lemma currentFrame_shape:
  "length (fst (currentFrame T s)) = unat (rows (config s))"
  "\<forall>line \<in> set (fst (currentFrame T s)). length line = unat (columns (config s))"
  by (auto simp add: currentFrame_def rowText_length)

lemma frame_fits_cong:
  "config s' = config s \<Longrightarrow> (items s' = []) = (items s = [])
   \<Longrightarrow> frame_fits P T s' = frame_fits P T s"
  by (simp add: frame_fits_def)

lemma frame_fits_render [simp]: "frame_fits P T (snd (render P T s)) = frame_fits P T s"
  by (rule frame_fits_cong) simp_all

lemma frame_fits_isSelected [simp]: "frame_fits P T (s\<lparr>isSelected := b\<rparr>) = frame_fits P T s"
  by (rule frame_fits_cong) simp_all

lemma render_pushes:
  "frame_fits P T s \<Longrightarrow> fst (render P T s) = Inr ()"
  "frame_fits P T s \<Longrightarrow> renderer (snd (render P T s)) = renderer s @ [currentFrame T s]"
  by (simp_all add: render_fits)

section \<open>Scenarios of the test suites\<close>

lemma createItems_5:
  "createItems 5 =
     [\<lparr>key = ''Item0'', value = 0\<rparr>, \<lparr>key = ''Item1'', value = 1\<rparr>,
      \<lparr>key = ''Item2'', value = 2\<rparr>, \<lparr>key = ''Item3'', value = 3\<rparr>,
      \<lparr>key = ''Item4'', value = 4\<rparr>]"
  by (simp add: createItems_def decimal.simps char_of_eq_iff upt_conv_Cons)

lemma createItems_2:
  "createItems 2 = [\<lparr>key = ''Item0'', value = 0\<rparr>, \<lparr>key = ''Item1'', value = 1\<rparr>]"
  by (simp add: createItems_def decimal.simps char_of_eq_iff upt_conv_Cons)

lemma libstdcxx_limits:
  "unat (vector_max_size libstdcxx) = 288230376151711743"
  "unat (string_max_size libstdcxx) = 4611686018427387903"
  by (simp_all add: libstdcxx_def)

lemma frame_fits_default:
  "config s = DisplayConfig_default \<Longrightarrow> frame_fits libstdcxx TestDisplayItem s"
  "config s' = DisplayConfig_default \<Longrightarrow> frame_fits libstdcxx InventoryDisplayItem s'"
  by (simp_all add: frame_fits_def DisplayConfig_default_def TestDisplayItem_def
      InventoryDisplayItem_def word_le_nat_alt word_less_nat_alt libstdcxx_limits)

lemma navigateDown_fields:
  assumes "items s \<noteq> []" and "unat (selectedItemIndex s) < length (items s) - 1"
  shows "config (snd (navigateDown P T s)) = config s"
    and "items (snd (navigateDown P T s)) = items s"
    and "isSelected (snd (navigateDown P T s)) = isSelected s"
    and "selectedItemIndex (snd (navigateDown P T s)) = selectedItemIndex s + 1"
    and "windowStartIndex (snd (navigateDown P T s)) =
      (if selectedItemIndex s + 1 < windowStartIndex s then selectedItemIndex s + 1
       else if windowStartIndex s + rows (config s) \<le> selectedItemIndex s + 1
       then selectedItemIndex s + 1 - rows (config s) + 1
       else windowStartIndex s)"
  using assms by (simp_all add: navigateDown_def adjustWindow_def)

lemma navigateDown_pushes:
  assumes "items s \<noteq> []" and "unat (selectedItemIndex s) < length (items s) - 1"
    and "frame_fits P T s"
  shows "fst (navigateDown P T s) = Inr True"
    and "renderer (snd (navigateDown P T s))
      = renderer s @ [currentFrame T (snd (navigateDown P T s))]"
proof -
  let ?s1 = "adjustWindow (s\<lparr>selectedItemIndex := selectedItemIndex s + 1\<rparr>)"
  have nav: "navigateDown P T s = returning True (render P T ?s1)"
    using assms(1,2) by (simp add: navigateDown_def)
  have "frame_fits P T ?s1 = frame_fits P T s"
    by (rule frame_fits_cong) simp_all
  then have fits: "frame_fits P T ?s1"
    using assms(3) by simp
  show "fst (navigateDown P T s) = Inr True"
    by (simp add: nav returning_Inr [OF render_pushes(1) [OF fits]])
  show "renderer (snd (navigateDown P T s))
      = renderer s @ [currentFrame T (snd (navigateDown P T s))]"
    by (simp add: nav render_pushes(2) [OF fits])
qed

lemma scenario_1:
  fixes s0 :: "(string, c_int) LCDDisplayController"
  defines "s0 \<equiv> \<lparr>config = DisplayConfig_default, items = createItems 5, renderer = [],
      selectedItemIndex = 0, windowStartIndex = 0, isSelected = False\<rparr>"
  shows "LCDDisplayController_ctor TestDisplayItem (createItems 5) (Some [])
           DisplayConfig_default = Inr s0"
    and "selectedItemIndex (navigateAll libstdcxx TestDisplayItem [Down, Down, Down] s0) = 3"
    and "windowStartIndex (navigateAll libstdcxx TestDisplayItem [Down, Down, Down] s0) = 2"
    and "last (renderer (navigateAll libstdcxx TestDisplayItem [Down, Down, Down] s0))
         = (['' Item2     :2   '', ''>Item3     :3   ''], 16)"
proof -
  let ?T = TestDisplayItem
  let ?P = libstdcxx
  let ?s1 = "snd (navigateDown ?P ?T s0)"
  let ?s2 = "snd (navigateDown ?P ?T ?s1)"
  let ?s3 = "snd (navigateDown ?P ?T ?s2)"
  show "LCDDisplayController_ctor ?T (createItems 5) (Some []) DisplayConfig_default = Inr s0"
    by (simp add: LCDDisplayController_ctor_def requiredWidth_def TestDisplayItem_def
        DisplayConfig_default_def s0_def)
  have len: "length (createItems 5) = 5"
    by (simp add: createItems_def)
  have f0: "items s0 = createItems 5" "config s0 = DisplayConfig_default"
    "selectedItemIndex s0 = 0" "windowStartIndex s0 = 0"
    by (simp_all add: s0_def)
  have ne0: "items s0 \<noteq> []" "unat (selectedItemIndex s0) < length (items s0) - 1"
    by (simp_all add: f0 len createItems_5)
  have f1: "items ?s1 = createItems 5" "config ?s1 = DisplayConfig_default"
    "selectedItemIndex ?s1 = 1" "windowStartIndex ?s1 = 0"
    by (simp_all add: navigateDown_fields [OF ne0] f0 DisplayConfig_default_def)
  have ne1: "items ?s1 \<noteq> []" "unat (selectedItemIndex ?s1) < length (items ?s1) - 1"
    by (simp_all add: f1 len createItems_5)
  have f2: "items ?s2 = createItems 5" "config ?s2 = DisplayConfig_default"
    "selectedItemIndex ?s2 = 2" "windowStartIndex ?s2 = 1"
    by (simp_all add: navigateDown_fields [OF ne1] f1 DisplayConfig_default_def)
  have ne2: "items ?s2 \<noteq> []" "unat (selectedItemIndex ?s2) < length (items ?s2) - 1"
    by (simp_all add: f2 len createItems_5)
  have fits2: "frame_fits ?P ?T ?s2"
    using f2(2) by (rule frame_fits_default)
  have f3: "items ?s3 = createItems 5" "config ?s3 = DisplayConfig_default"
    "selectedItemIndex ?s3 = 3" "windowStartIndex ?s3 = 2"
    by (simp_all add: navigateDown_fields [OF ne2] f2 DisplayConfig_default_def)
  have all: "navigateAll ?P ?T [Down, Down, Down] s0 = ?s3"
    by simp
  show "selectedItemIndex (navigateAll ?P ?T [Down, Down, Down] s0) = 3"
    and "windowStartIndex (navigateAll ?P ?T [Down, Down, Down] s0) = 2"
    by (simp_all only: all f3)
  have rows: "[0..<unat (rows DisplayConfig_default)] = [0, 1]"
    by (simp add: DisplayConfig_default_def upt_conv_Cons)
  have item2: "createItems 5 ! 2 = \<lparr>key = ''Item2'', value = 2\<rparr>"
    and item3: "createItems 5 ! 3 = \<lparr>key = ''Item3'', value = 3\<rparr>"
    by (simp_all add: createItems_5)
  have key2: "getFormattedKey ?T \<lparr>key = ''Item2'', value = 2\<rparr> = ''Item2     ''"
    and key3: "getFormattedKey ?T \<lparr>key = ''Item3'', value = 3\<rparr> = ''Item3     ''"
    by (simp_all add: item_eval)
  have val2: "getFormattedValue ?T \<lparr>key = ''Item2'', value = 2\<rparr> = ''2   ''"
    and val3: "getFormattedValue ?T \<lparr>key = ''Item3'', value = 3\<rparr> = ''3   ''"
    by (simp_all add: item_eval)
  have row0: "rowText ?T ?s3 0 = '' Item2     :2   ''"
    by (simp add: rowText_def getNavigatorRowInWindow_def Let_def f3 len item2 key2 val2
        DisplayConfig_default_def)
  have row1: "rowText ?T ?s3 1 = ''>Item3     :3   ''"
    by (simp add: rowText_def getNavigatorRowInWindow_def Let_def f3 len item3 key3 val3
        DisplayConfig_default_def)
  have "currentFrame ?T ?s3 = (['' Item2     :2   '', ''>Item3     :3   ''], 16)"
    by (simp add: currentFrame_def f3 rows row0 row1) (simp add: DisplayConfig_default_def)
  then show "last (renderer (navigateAll ?P ?T [Down, Down, Down] s0))
         = (['' Item2     :2   '', ''>Item3     :3   ''], 16)"
    by (simp only: all navigateDown_pushes(2) [OF ne2 fits2] last_snoc)
qed

section \<open>Rendering an empty store\<close>

lemma take_cons_replicate: "take n (x # replicate (n - Suc 0) x) = replicate n x"
  by (cases n) simp_all

lemma rowText_empty:
  assumes "items s = []"
  shows "rowText T s r =
     take (unat (columns (config s)))
       ((if r = selectedItemIndex s - windowStartIndex s
         then navigatorChar (config s) else CHR '' '')
        # replicate (unat (columns (config s)) - 1) CHR '' '')"
proof (cases "1 < columns (config s)")
  case True
  then have wide: "1 < unat (columns (config s))"
    by (simp add: word_less_nat_alt)
  then have "0 < columns (config s)"
    by (simp add: word_less_nat_alt)
  then have "unat (columns (config s) - 1) = unat (columns (config s)) - 1"
    by (rule size_t_pred)
  with wide show ?thesis
    using True assms by (simp add: rowText_def getNavigatorRowInWindow_def Let_def)
next
  case False
  then have "unat (columns (config s)) \<le> 1"
    by (simp add: word_less_nat_alt)
  then consider "unat (columns (config s)) = 0" | "unat (columns (config s)) = 1"
    by arith
  then show ?thesis
  proof cases
    case 1
    then show ?thesis
      using False assms by (simp add: rowText_def getNavigatorRowInWindow_def Let_def)
  next
    case 2
    then show ?thesis
      using False assms by (simp add: rowText_def getNavigatorRowInWindow_def Let_def)
  qed
qed

lemma row_index_zero:
  "r < unat (n :: size_t) \<Longrightarrow> (of_nat r :: size_t) = 0 \<longleftrightarrow> r = 0"
proof -
  assume "r < unat n"
  then have "r < 2 ^ 64"
    using size_t_bound [of n] by simp
  then have u: "unat (of_nat r :: size_t) = r"
    by (rule size_t_of_nat)
  show ?thesis
  proof
    assume "(of_nat r :: size_t) = 0"
    then have "unat (of_nat r :: size_t) = 0"
      by simp
    with u show "r = 0"
      by simp
  next
    assume "r = 0"
    then show "(of_nat r :: size_t) = 0"
      by simp
  qed
qed

lemma currentFrame_empty:
  assumes c: "consistent s" and e: "items s = []"
  shows "currentFrame T s =
     (map (\<lambda>r. if r = 0
               then take (unat (columns (config s)))
                      (navigatorChar (config s)
                       # replicate (unat (columns (config s)) - 1) CHR '' '')
               else replicate (unat (columns (config s))) CHR '' '')
        [0..<unat (rows (config s))],
      columns (config s))"
proof -
  have z: "selectedItemIndex s - windowStartIndex s = 0"
    using c e by (simp add: consistent_def)
  have "rowText T s (of_nat r) =
      (if r = 0
       then take (unat (columns (config s)))
              (navigatorChar (config s) # replicate (unat (columns (config s)) - 1) CHR '' '')
       else replicate (unat (columns (config s))) CHR '' '')"
    if "r \<in> set [0..<unat (rows (config s))]" for r
  proof -
    from that have "r < unat (rows (config s))" by simp
    then have "(of_nat r :: size_t) = 0 \<longleftrightarrow> r = 0"
      by (rule row_index_zero)
    then show ?thesis
      by (simp add: rowText_empty [OF e] z take_cons_replicate)
  qed
  then show ?thesis
    unfolding currentFrame_def by (simp cong: map_cong)
qed

text \<open>
  C1, as the specification states it: over an empty store \<open>render\<close> pushes \<open>rows\<close> lines
  that consist of spaces only, with no cursor glyph, and raises no exception. In the code
  the cursor row is \<open>selectedItemIndex - windowStartIndex\<close>, which is 0 in an empty store,
  so row 0 begins with the cursor glyph: the default 2 x 16 display shows \<open>>\<close> followed by
  15 spaces. And \<open>render\<close> does raise an exception when the display is larger than the
  containers can hold: with \<open>rows = 2 ^ 59\<close>, which the constructor accepts,
  \<open>lines.reserve\<close> throws \<open>std::length_error\<close> and nothing is pushed.
\<close>

theorem empty_store_cursor_counterexample:
  "LCDDisplayController_ctor InventoryDisplayItem [] (Some []) DisplayConfig_default
     = Inr \<lparr>config = DisplayConfig_default, items = [], renderer = [],
            selectedItemIndex = 0, windowStartIndex = 0, isSelected = False\<rparr>
   \<and> fst (last (renderer (snd (render libstdcxx InventoryDisplayItem
          \<lparr>config = DisplayConfig_default, items = [], renderer = [],
           selectedItemIndex = 0, windowStartIndex = 0, isSelected = False\<rparr>)))) ! 0
     = ''>               ''
   \<and> fst (last (renderer (snd (render libstdcxx InventoryDisplayItem
          \<lparr>config = DisplayConfig_default, items = [], renderer = [],
           selectedItemIndex = 0, windowStartIndex = 0, isSelected = False\<rparr>)))) ! 0
     \<noteq> replicate (unat (columns DisplayConfig_default)) CHR '' ''
   \<and> LCDDisplayController_ctor InventoryDisplayItem [] (Some [])
         (DisplayConfig_default\<lparr>rows := 576460752303423488\<rparr>)
     = Inr \<lparr>config = DisplayConfig_default\<lparr>rows := 576460752303423488\<rparr>, items = [],
            renderer = [], selectedItemIndex = 0, windowStartIndex = 0, isSelected = False\<rparr>
   \<and> render libstdcxx InventoryDisplayItem
         \<lparr>config = DisplayConfig_default\<lparr>rows := 576460752303423488\<rparr>, items = [],
          renderer = [], selectedItemIndex = 0, windowStartIndex = 0, isSelected = False\<rparr>
     = (Inl length_error,
        \<lparr>config = DisplayConfig_default\<lparr>rows := 576460752303423488\<rparr>, items = [],
         renderer = [], selectedItemIndex = 0, windowStartIndex = 0, isSelected = False\<rparr>)"
proof -
  let ?s = "\<lparr>config = DisplayConfig_default, items = [], renderer = [],
      selectedItemIndex = 0, windowStartIndex = 0, isSelected = False\<rparr>
      :: (string, uint8_t) LCDDisplayController"
  let ?big = "\<lparr>config = DisplayConfig_default\<lparr>rows := 576460752303423488\<rparr>, items = [],
      renderer = [], selectedItemIndex = 0, windowStartIndex = 0, isSelected = False\<rparr>
      :: (string, uint8_t) LCDDisplayController"
  have rows: "[0..<unat (rows DisplayConfig_default)] = [0, 1]"
    by (simp add: DisplayConfig_default_def upt_conv_Cons)
  have cols: "unat (columns DisplayConfig_default) = 16"
    by (simp add: DisplayConfig_default_def)
  have fits: "frame_fits libstdcxx InventoryDisplayItem ?s"
    by (rule frame_fits_default) simp
  have "rowText InventoryDisplayItem ?s 0 = ''>               ''"
    by (simp add: rowText_empty DisplayConfig_default_def replicate_numeral)
  then have shown: "fst (last (renderer (snd (render libstdcxx InventoryDisplayItem ?s)))) ! 0
      = ''>               ''"
    by (simp add: render_pushes(2) [OF fits] currentFrame_def rows)
  have ctor: "LCDDisplayController_ctor InventoryDisplayItem [] (Some []) DisplayConfig_default
      = Inr ?s"
    by (simp add: LCDDisplayController_ctor_def requiredWidth_def InventoryDisplayItem_def
        DisplayConfig_default_def)
  have ctor_big: "LCDDisplayController_ctor InventoryDisplayItem [] (Some [])
      (DisplayConfig_default\<lparr>rows := 576460752303423488\<rparr>) = Inr ?big"
    by (simp add: LCDDisplayController_ctor_def requiredWidth_def InventoryDisplayItem_def
        DisplayConfig_default_def)
  have "vector_max_size libstdcxx < rows (config ?big)"
    by (simp add: libstdcxx_def)
  then have thrown: "render libstdcxx InventoryDisplayItem ?big = (Inl length_error, ?big)"
    by (rule render_rows_exceed)
  have blank: "''>               '' \<noteq> replicate (unat (columns DisplayConfig_default)) CHR '' ''"
    by (simp add: cols replicate_numeral)
  show ?thesis
    using ctor shown blank ctor_big thrown by (simp only:) simp
qed

text \<open>
  C1, amended: for a controller over an empty store whose display is within what the
  containers can hold (\<open>rows\<close> at most \<open>max_size()\<close> of the vector of lines, \<open>columns\<close> at most
  \<open>max_size()\<close> of a string, which is not 0), \<open>render\<close> raises no exception and pushes one
  frame of exactly \<open>rows\<close> lines, each of exactly \<open>columns\<close> characters; every cell is a
  space, except the first cell of row 0, which holds the cursor glyph.
\<close>

theorem empty_store_frame:
  assumes r: "reachable P T s" and e: "items s = []"
    and rows_fit: "rows (config s) \<le> vector_max_size P"
    and columns_fit: "columns (config s) \<le> string_max_size P"
    and cell_fits: "0 < string_max_size P"
  shows "fst (render P T s) = Inr ()
     \<and> renderer (snd (render P T s)) =
       renderer s @
       [(map (\<lambda>r. if r = 0
                 then take (unat (columns (config s)))
                        (navigatorChar (config s)
                         # replicate (unat (columns (config s)) - 1) CHR '' '')
                 else replicate (unat (columns (config s))) CHR '' '')
           [0..<unat (rows (config s))],
         columns (config s))]
     \<and> length (fst (last (renderer (snd (render P T s))))) = unat (rows (config s))
     \<and> (\<forall>line \<in> set (fst (last (renderer (snd (render P T s))))).
           length line = unat (columns (config s)))"
proof -
  have fits: "frame_fits P T s"
    using e rows_fit columns_fit cell_fits by (simp add: frame_fits_def)
  have "consistent s"
    using r by (rule reachable_consistent)
  then have frame: "currentFrame T s =
     (map (\<lambda>r. if r = 0
               then take (unat (columns (config s)))
                      (navigatorChar (config s)
                       # replicate (unat (columns (config s)) - 1) CHR '' '')
               else replicate (unat (columns (config s))) CHR '' '')
        [0..<unat (rows (config s))],
      columns (config s))"
    using e by (rule currentFrame_empty)
  have "fst (render P T s) = Inr ()"
    using fits by (rule render_pushes)
  moreover have pushed: "renderer (snd (render P T s)) = renderer s @ [currentFrame T s]"
    using fits by (rule render_pushes)
  moreover have "length (fst (last (renderer (snd (render P T s))))) = unat (rows (config s))"
    by (simp add: pushed currentFrame_shape)
  moreover have "\<forall>line \<in> set (fst (last (renderer (snd (render P T s))))).
      length line = unat (columns (config s))"
    by (simp add: pushed currentFrame_shape)
  ultimately show ?thesis
    unfolding frame by blast
qed

theorem empty_store_frame_witness:
  "reachable libstdcxx InventoryDisplayItem
     \<lparr>config = DisplayConfig_default, items = [], renderer = [],
      selectedItemIndex = 0, windowStartIndex = 0, isSelected = False\<rparr>
   \<and> rows DisplayConfig_default \<le> vector_max_size libstdcxx
   \<and> columns DisplayConfig_default \<le> string_max_size libstdcxx
   \<and> 0 < string_max_size libstdcxx
   \<and> fst (render libstdcxx InventoryDisplayItem
        \<lparr>config = DisplayConfig_default, items = [], renderer = [],
         selectedItemIndex = 0, windowStartIndex = 0, isSelected = False\<rparr>) = Inr ()
   \<and> renderer (snd (render libstdcxx InventoryDisplayItem
        \<lparr>config = DisplayConfig_default, items = [], renderer = [],
         selectedItemIndex = 0, windowStartIndex = 0, isSelected = False\<rparr>))
     = [([''>               '', ''                ''], 16)]"
proof -
  let ?s = "\<lparr>config = DisplayConfig_default, items = [], renderer = [],
      selectedItemIndex = 0, windowStartIndex = 0, isSelected = False\<rparr>
      :: (string, uint8_t) LCDDisplayController"
  have "LCDDisplayController_ctor InventoryDisplayItem [] (Some []) DisplayConfig_default
      = Inr ?s"
    by (simp add: LCDDisplayController_ctor_def requiredWidth_def InventoryDisplayItem_def
        DisplayConfig_default_def)
  then have r: "reachable libstdcxx InventoryDisplayItem ?s"
    by (rule reachable.constructed [rotated]) simp
  have e: "items ?s = []"
    by simp
  have lim: "rows (config ?s) \<le> vector_max_size libstdcxx"
    "columns (config ?s) \<le> string_max_size libstdcxx" "0 < string_max_size libstdcxx"
    by (simp_all add: DisplayConfig_default_def libstdcxx_def)
  have rows: "[0..<unat (rows DisplayConfig_default)] = [0, 1]"
    by (simp add: DisplayConfig_default_def upt_conv_Cons)
  have cols: "unat (columns DisplayConfig_default) = 16"
    "columns DisplayConfig_default = 16" "navigatorChar DisplayConfig_default = CHR ''>''"
    by (simp_all add: DisplayConfig_default_def)
  have "fst (render libstdcxx InventoryDisplayItem ?s) = Inr ()
      \<and> renderer (snd (render libstdcxx InventoryDisplayItem ?s))
        = [([''>               '', ''                ''], 16)]"
    using empty_store_frame [OF r e lim] by (simp add: rows cols replicate_numeral)
  then show ?thesis
    using r lim by simp
qed

section \<open>The window invariant\<close>

lemma navigate_keeps:
  "config (snd (navigate P T c s)) = config s"
  "items (snd (navigate P T c s)) = items s"
  by (cases c; simp add: navigateUp_def navigateDown_def)+

lemma consistent_navigate: "consistent s \<Longrightarrow> consistent (snd (navigate P T c s))"
  by (cases c) (simp_all add: consistent_navigateUp consistent_navigateDown)

lemma window_invariant_render [simp]: "window_invariant (snd (render P T s)) = window_invariant s"
  by (simp add: window_invariant_def)

lemma window_invariant_navigateDown:
  assumes c: "consistent s" and w: "window_invariant s"
    and rows1: "1 \<le> unat (rows (config s))"
  shows "window_invariant (snd (navigateDown P T s))"
proof (cases "items s \<noteq> [] \<and> unat (selectedItemIndex s) < length (items s) - 1")
  case False
  then show ?thesis
    using w by (simp add: navigateDown_refused)
next
  case True
  then have ne: "items s \<noteq> []"
    and lt: "unat (selectedItemIndex s) < length (items s) - 1"
    by simp_all
  from navigateDown_moves [OF c ne lt, of P T] obtain s1 where
    nav: "navigateDown P T s = returning True (render P T s1)"
    and same: "config s1 = config s" "items s1 = items s"
    and sel: "unat (selectedItemIndex s1) = unat (selectedItemIndex s) + 1"
    and ws: "if unat (windowStartIndex s) + unat (rows (config s))
             \<le> unat (selectedItemIndex s) + 1
          then unat (windowStartIndex s1)
             = unat (selectedItemIndex s) + 1 - unat (rows (config s)) + 1
          else windowStartIndex s1 = windowStartIndex s"
    by blast
  have lt2: "unat (selectedItemIndex s) + 2 \<le> length (items s)"
    using lt by simp
  have lo: "unat (windowStartIndex s) \<le> unat (selectedItemIndex s)"
    and fit: "unat (windowStartIndex s) + unat (rows (config s))
        \<le> max (length (items s)) (unat (rows (config s)))"
    using w by (simp_all add: window_invariant_def)
  have "window_invariant s1"
  proof (cases "unat (windowStartIndex s) + unat (rows (config s))
             \<le> unat (selectedItemIndex s) + 1")
    case True
    then have "unat (windowStartIndex s1)
        = unat (selectedItemIndex s) + 1 - unat (rows (config s)) + 1"
      using ws by simp
    then show ?thesis
      using True rows1 lt2 sel same by (simp add: window_invariant_def)
  next
    case False
    then have "windowStartIndex s1 = windowStartIndex s"
      using ws by simp
    then show ?thesis
      using False lo fit sel same by (simp add: window_invariant_def)
  qed
  then show ?thesis
    by (simp add: nav)
qed

lemma window_invariant_navigateUp:
  assumes c: "consistent s" and w: "window_invariant s"
  shows "window_invariant (snd (navigateUp P T s))"
proof (cases "0 < selectedItemIndex s")
  case False
  then show ?thesis
    using w by (simp add: navigateUp_refused)
next
  case True
  from navigateUp_moves [OF c True, of P T] obtain s1 where
    nav: "navigateUp P T s = returning True (render P T s1)"
    and same: "config s1 = config s" "items s1 = items s"
    and sel: "unat (selectedItemIndex s1) = unat (selectedItemIndex s) - 1"
    and ws: "unat (windowStartIndex s1) =
        (if unat (selectedItemIndex s) - 1 < unat (windowStartIndex s)
         then unat (selectedItemIndex s) - 1
         else if unat (windowStartIndex s) + unat (rows (config s))
                 \<le> unat (selectedItemIndex s) - 1
         then unat (selectedItemIndex s) - 1 - unat (rows (config s)) + 1
         else unat (windowStartIndex s))"
    by blast
  have pos: "0 < unat (selectedItemIndex s)"
    using True by (simp add: word_less_nat_alt)
  have lo: "unat (windowStartIndex s) \<le> unat (selectedItemIndex s)"
    and hi: "unat (selectedItemIndex s)
        < unat (windowStartIndex s) + unat (rows (config s))"
    and fit: "unat (windowStartIndex s) + unat (rows (config s))
        \<le> max (length (items s)) (unat (rows (config s)))"
    using w by (simp_all add: window_invariant_def)
  have "window_invariant s1"
  proof (cases "unat (selectedItemIndex s) - 1 < unat (windowStartIndex s)")
    case True
    then have "unat (windowStartIndex s1) = unat (selectedItemIndex s) - 1"
      using ws by simp
    then show ?thesis
      using True pos lo hi fit sel same by (simp add: window_invariant_def) arith
  next
    case False
    have "\<not> unat (windowStartIndex s) + unat (rows (config s))
        \<le> unat (selectedItemIndex s) - 1"
      using hi by arith
    with False have "unat (windowStartIndex s1) = unat (windowStartIndex s)"
      using ws by simp
    then show ?thesis
      using False pos hi fit sel same by (simp add: window_invariant_def)
  qed
  then show ?thesis
    by (simp add: nav)
qed

lemma navigateAll_invariant:
  "consistent s \<Longrightarrow> window_invariant s \<Longrightarrow> 1 \<le> unat (rows (config s)) \<Longrightarrow>
     window_invariant (navigateAll P T cmds s)
     \<and> config (navigateAll P T cmds s) = config s
     \<and> items (navigateAll P T cmds s) = items s"
proof (induction cmds arbitrary: s)
  case Nil
  then show ?case by simp
next
  case (Cons c cmds)
  let ?s' = "snd (navigate P T c s)"
  have c': "consistent ?s'"
    using Cons.prems(1) by (rule consistent_navigate)
  have w': "window_invariant ?s'"
    using Cons.prems
    by (cases c) (simp_all add: window_invariant_navigateUp window_invariant_navigateDown)
  have r': "1 \<le> unat (rows (config ?s'))"
    using Cons.prems(3) by (simp add: navigate_keeps)
  show ?case
    using Cons.IH [OF c' w' r'] by (simp add: navigate_keeps)
qed

text \<open>
  C3, as the specification states it, for every configuration. With \<open>rows = 0\<close> the
  invariant fails after the first call: in a store of two records \<open>navigateDown\<close> moves
  the selection to 1 and \<open>adjustWindow\<close> sets the window start to \<open>1 - 0 + 1 = 2\<close>.
  \<open>DisplayConfig\<close> accepts \<open>rows = 0\<close> and the constructor does not check it.
\<close>

theorem zero_rows_counterexample:
  "LCDDisplayController_ctor TestDisplayItem (createItems 2) (Some [])
       (DisplayConfig_default\<lparr>rows := 0\<rparr>)
     = Inr \<lparr>config = DisplayConfig_default\<lparr>rows := 0\<rparr>, items = createItems 2,
            renderer = [], selectedItemIndex = 0, windowStartIndex = 0, isSelected = False\<rparr>
   \<and> createItems 2 \<noteq> []
   \<and> selectedItemIndex (navigateAll libstdcxx TestDisplayItem [Down]
        \<lparr>config = DisplayConfig_default\<lparr>rows := 0\<rparr>, items = createItems 2,
         renderer = [], selectedItemIndex = 0, windowStartIndex = 0, isSelected = False\<rparr>) = 1
   \<and> windowStartIndex (navigateAll libstdcxx TestDisplayItem [Down]
        \<lparr>config = DisplayConfig_default\<lparr>rows := 0\<rparr>, items = createItems 2,
         renderer = [], selectedItemIndex = 0, windowStartIndex = 0, isSelected = False\<rparr>) = 2
   \<and> \<not> window_invariant (navigateAll libstdcxx TestDisplayItem [Down]
        \<lparr>config = DisplayConfig_default\<lparr>rows := 0\<rparr>, items = createItems 2,
         renderer = [], selectedItemIndex = 0, windowStartIndex = 0, isSelected = False\<rparr>)"
proof -
  let ?s0 = "\<lparr>config = DisplayConfig_default\<lparr>rows := 0\<rparr>, items = createItems 2,
      renderer = [], selectedItemIndex = 0, windowStartIndex = 0, isSelected = False\<rparr>"
  let ?s1 = "snd (navigateDown libstdcxx TestDisplayItem ?s0)"
  have ctor: "LCDDisplayController_ctor TestDisplayItem (createItems 2) (Some [])
       (DisplayConfig_default\<lparr>rows := 0\<rparr>) = Inr ?s0"
    by (simp add: LCDDisplayController_ctor_def requiredWidth_def TestDisplayItem_def
        DisplayConfig_default_def)
  have ne: "items ?s0 \<noteq> []" "unat (selectedItemIndex ?s0) < length (items ?s0) - 1"
    by (simp_all add: createItems_2)
  have sel: "selectedItemIndex ?s1 = 1" and ws: "windowStartIndex ?s1 = 2"
    by (simp_all add: navigateDown_fields [OF ne])
  have all: "navigateAll libstdcxx TestDisplayItem [Down] ?s0 = ?s1"
    by simp
  have "\<not> window_invariant ?s1"
    by (simp add: window_invariant_def sel ws)
  then show ?thesis
    using ctor ne(1) sel ws unfolding all by simp
qed

text \<open>
  C3, amended: for every non-empty store, every configuration with \<open>rows \<ge> 1\<close> and every
  finite sequence of \<open>navigateUp\<close>/\<open>navigateDown\<close> calls from the initial state, the state
  after each call satisfies \<open>windowStart \<le> selectedIndex < windowStart + rows\<close> and
  \<open>windowStart + rows \<le> max(length, rows)\<close>; in particular \<open>windowStart\<close> stays 0 when
  \<open>length \<le> rows\<close>. (The sequence \<open>cmds\<close> is arbitrary, so the statement covers the state
  after each call of a longer sequence.)
\<close>

theorem selection_stays_in_window:
  assumes ctor: "LCDDisplayController_ctor T its rend cfg = Inr s0"
    and ne: "its \<noteq> []" and len: "length its < 2 ^ 64" and rows1: "1 \<le> rows cfg"
  shows "window_invariant (navigateAll P T cmds s0)
     \<and> (length its \<le> unat (rows cfg) \<longrightarrow> windowStartIndex (navigateAll P T cmds s0) = 0)"
proof -
  have fields: "config s0 = cfg" "items s0 = its" "selectedItemIndex s0 = 0"
    "windowStartIndex s0 = 0"
    using ctor by (auto simp add: LCDDisplayController_ctor_def split: option.splits if_splits)
  have c: "consistent s0"
    using len ctor by (rule consistent_ctor)
  have r: "1 \<le> unat (rows (config s0))"
    using rows1 by (simp add: fields word_le_nat_alt)
  have w: "window_invariant s0"
    using r by (simp add: window_invariant_def fields)
  have inv: "window_invariant (navigateAll P T cmds s0)"
    and same: "config (navigateAll P T cmds s0) = cfg" "items (navigateAll P T cmds s0) = its"
    using navigateAll_invariant [OF c w r, of P T cmds] by (simp_all add: fields)
  have "windowStartIndex (navigateAll P T cmds s0) = 0" if "length its \<le> unat (rows cfg)"
  proof -
    have "unat (windowStartIndex (navigateAll P T cmds s0)) + unat (rows cfg)
        \<le> max (length its) (unat (rows cfg))"
      using inv by (simp add: window_invariant_def same)
    then have "unat (windowStartIndex (navigateAll P T cmds s0)) = 0"
      using that by simp
    then show ?thesis
      by (simp add: unat_eq_0)
  qed
  then show ?thesis
    using inv by simp
qed

theorem selection_stays_in_window_witness:
  "LCDDisplayController_ctor TestDisplayItem (createItems 5) (Some []) DisplayConfig_default
     = Inr \<lparr>config = DisplayConfig_default, items = createItems 5, renderer = [],
            selectedItemIndex = 0, windowStartIndex = 0, isSelected = False\<rparr>
   \<and> createItems 5 \<noteq> [] \<and> length (createItems 5) < 2 ^ 64
   \<and> 1 \<le> rows DisplayConfig_default
   \<and> window_invariant (navigateAll libstdcxx TestDisplayItem [Down, Down, Down, Up]
        \<lparr>config = DisplayConfig_default, items = createItems 5, renderer = [],
         selectedItemIndex = 0, windowStartIndex = 0, isSelected = False\<rparr>)
   \<and> LCDDisplayController_ctor TestDisplayItem (createItems 2) (Some []) DisplayConfig_default
     = Inr \<lparr>config = DisplayConfig_default, items = createItems 2, renderer = [],
            selectedItemIndex = 0, windowStartIndex = 0, isSelected = False\<rparr>
   \<and> createItems 2 \<noteq> [] \<and> length (createItems 2) < 2 ^ 64
   \<and> length (createItems 2) \<le> unat (rows DisplayConfig_default)
   \<and> windowStartIndex (navigateAll libstdcxx TestDisplayItem [Down, Down, Up]
        \<lparr>config = DisplayConfig_default, items = createItems 2, renderer = [],
         selectedItemIndex = 0, windowStartIndex = 0, isSelected = False\<rparr>) = 0"
proof -
  have ctor5: "LCDDisplayController_ctor TestDisplayItem (createItems 5) (Some [])
      DisplayConfig_default
     = Inr \<lparr>config = DisplayConfig_default, items = createItems 5, renderer = [],
            selectedItemIndex = 0, windowStartIndex = 0, isSelected = False\<rparr>"
    by (rule scenario_1)
  have ctor2: "LCDDisplayController_ctor TestDisplayItem (createItems 2) (Some [])
      DisplayConfig_default
     = Inr \<lparr>config = DisplayConfig_default, items = createItems 2, renderer = [],
            selectedItemIndex = 0, windowStartIndex = 0, isSelected = False\<rparr>"
    by (simp add: LCDDisplayController_ctor_def requiredWidth_def TestDisplayItem_def
        DisplayConfig_default_def)
  have ne5: "createItems 5 \<noteq> []" and ne2: "createItems 2 \<noteq> []"
    by (simp_all add: createItems_5 createItems_2)
  have len5: "length (createItems 5) < 2 ^ 64" and len2: "length (createItems 2) < 2 ^ 64"
    by (simp_all add: createItems_def)
  have rows1: "1 \<le> rows DisplayConfig_default"
    by (simp add: DisplayConfig_default_def)
  have short: "length (createItems 2) \<le> unat (rows DisplayConfig_default)"
    by (simp add: createItems_def DisplayConfig_default_def)
  show ?thesis
    using selection_stays_in_window [OF ctor5 ne5 len5 rows1, of libstdcxx "[Down, Down, Down, Up]"]
      selection_stays_in_window [OF ctor2 ne2 len2 rows1, of libstdcxx "[Down, Down, Up]"]
      ctor5 ctor2 ne5 ne2 len5 len2 rows1 short
    by blast
qed

section \<open>navigateDown\<close>

lemma navigateDown_reachable:
  assumes r: "reachable P T s" and fits: "frame_fits P T s"
  shows "if items s \<noteq> [] \<and> unat (selectedItemIndex s) < length (items s) - 1
      then fst (navigateDown P T s) = Inr True
         \<and> unat (selectedItemIndex (snd (navigateDown P T s)))
             = unat (selectedItemIndex s) + 1
         \<and> (if unat (windowStartIndex s) + unat (rows (config s))
                 \<le> unat (selectedItemIndex s) + 1
              then unat (windowStartIndex (snd (navigateDown P T s)))
                 = unat (selectedItemIndex s) + 1 - unat (rows (config s)) + 1
              else windowStartIndex (snd (navigateDown P T s)) = windowStartIndex s)
         \<and> items (snd (navigateDown P T s)) = items s
         \<and> config (snd (navigateDown P T s)) = config s
         \<and> isSelected (snd (navigateDown P T s)) = isSelected s
         \<and> renderer (snd (navigateDown P T s))
             = renderer s @ [currentFrame T (snd (navigateDown P T s))]
      else navigateDown P T s = (Inr False, s)"
proof (cases "items s \<noteq> [] \<and> unat (selectedItemIndex s) < length (items s) - 1")
  case False
  show ?thesis
    unfolding if_not_P [OF False] using False by (rule navigateDown_refused)
next
  case True
  then have ne: "items s \<noteq> []"
    and lt: "unat (selectedItemIndex s) < length (items s) - 1"
    by simp_all
  have c: "consistent s"
    using r by (rule reachable_consistent)
  from navigateDown_moves [OF c ne lt, of P T] obtain s1 where
    nav: "navigateDown P T s = returning True (render P T s1)"
    and same: "config s1 = config s" "items s1 = items s" "renderer s1 = renderer s"
      "isSelected s1 = isSelected s"
    and sel: "unat (selectedItemIndex s1) = unat (selectedItemIndex s) + 1"
    and ws: "if unat (windowStartIndex s) + unat (rows (config s))
             \<le> unat (selectedItemIndex s) + 1
          then unat (windowStartIndex s1)
             = unat (selectedItemIndex s) + 1 - unat (rows (config s)) + 1
          else windowStartIndex s1 = windowStartIndex s"
    by blast
  have "frame_fits P T s1 = frame_fits P T s"
    by (rule frame_fits_cong) (simp_all add: same)
  then have fits1: "frame_fits P T s1"
    using fits by simp
  have ret: "fst (navigateDown P T s) = Inr True"
    by (simp add: nav returning_Inr [OF render_pushes(1) [OF fits1]])
  show ?thesis
    unfolding if_P [OF True] using same sel ws ret
    by (simp add: nav render_pushes(2) [OF fits1])
qed

lemma scenario_single:
  fixes s0 :: "(string, c_int) LCDDisplayController"
  defines "s0 \<equiv> \<lparr>config = DisplayConfig_default, items = createItems 1, renderer = [],
      selectedItemIndex = 0, windowStartIndex = 0, isSelected = False\<rparr>"
  shows "reachable P TestDisplayItem s0"
    and "\<not> (items s0 \<noteq> [] \<and> unat (selectedItemIndex s0) < length (items s0) - 1)"
proof -
  have "LCDDisplayController_ctor TestDisplayItem (createItems 1) (Some [])
      DisplayConfig_default = Inr s0"
    by (simp add: LCDDisplayController_ctor_def requiredWidth_def TestDisplayItem_def
        DisplayConfig_default_def s0_def)
  then show "reachable P TestDisplayItem s0"
    by (rule reachable.constructed [rotated]) (simp add: createItems_def)
  show "\<not> (items s0 \<noteq> [] \<and> unat (selectedItemIndex s0) < length (items s0) - 1)"
    by (simp add: s0_def createItems_def)
qed

text \<open>
  C4, as the specification states it, for every configuration: whenever the store is
  non-empty and \<open>selectedIndex < length - 1\<close>, \<open>navigateDown\<close> returns \<open>true\<close> and pushes one
  render. With \<open>rows = SIZE_MAX\<close>, which the constructor accepts, and two records,
  \<open>navigateDown\<close> increments \<open>selectedIndex\<close> and then \<open>render\<close> throws \<open>std::length_error\<close>
  from \<open>lines.reserve\<close>: the call returns nothing and the renderer receives no frame.
\<close>

theorem navigateDown_throws_counterexample:
  "LCDDisplayController_ctor TestDisplayItem (createItems 2) (Some [])
       (DisplayConfig_default\<lparr>rows := 18446744073709551615\<rparr>)
     = Inr \<lparr>config = DisplayConfig_default\<lparr>rows := 18446744073709551615\<rparr>,
            items = createItems 2, renderer = [], selectedItemIndex = 0,
            windowStartIndex = 0, isSelected = False\<rparr>
   \<and> createItems 2 \<noteq> []
   \<and> unat (0 :: size_t) < length (createItems 2) - 1
   \<and> fst (navigateDown libstdcxx TestDisplayItem
        \<lparr>config = DisplayConfig_default\<lparr>rows := 18446744073709551615\<rparr>,
         items = createItems 2, renderer = [], selectedItemIndex = 0,
         windowStartIndex = 0, isSelected = False\<rparr>) = Inl length_error
   \<and> fst (navigateDown libstdcxx TestDisplayItem
        \<lparr>config = DisplayConfig_default\<lparr>rows := 18446744073709551615\<rparr>,
         items = createItems 2, renderer = [], selectedItemIndex = 0,
         windowStartIndex = 0, isSelected = False\<rparr>) \<noteq> Inr True
   \<and> selectedItemIndex (snd (navigateDown libstdcxx TestDisplayItem
        \<lparr>config = DisplayConfig_default\<lparr>rows := 18446744073709551615\<rparr>,
         items = createItems 2, renderer = [], selectedItemIndex = 0,
         windowStartIndex = 0, isSelected = False\<rparr>)) = 1
   \<and> renderer (snd (navigateDown libstdcxx TestDisplayItem
        \<lparr>config = DisplayConfig_default\<lparr>rows := 18446744073709551615\<rparr>,
         items = createItems 2, renderer = [], selectedItemIndex = 0,
         windowStartIndex = 0, isSelected = False\<rparr>)) = []"
proof -
  let ?s0 = "\<lparr>config = DisplayConfig_default\<lparr>rows := 18446744073709551615\<rparr>,
      items = createItems 2, renderer = [], selectedItemIndex = 0,
      windowStartIndex = 0, isSelected = False\<rparr>"
  let ?s1 = "adjustWindow (?s0\<lparr>selectedItemIndex := selectedItemIndex ?s0 + 1\<rparr>)"
  have ctor: "LCDDisplayController_ctor TestDisplayItem (createItems 2) (Some [])
       (DisplayConfig_default\<lparr>rows := 18446744073709551615\<rparr>) = Inr ?s0"
    by (simp add: LCDDisplayController_ctor_def requiredWidth_def TestDisplayItem_def
        DisplayConfig_default_def)
  have ne: "createItems 2 \<noteq> []" and lt: "unat (0 :: size_t) < length (createItems 2) - 1"
    by (simp_all add: createItems_2)
  have nav: "navigateDown libstdcxx TestDisplayItem ?s0
      = returning True (render libstdcxx TestDisplayItem ?s1)"
    using ne lt by (simp add: navigateDown_def)
  have "vector_max_size libstdcxx < rows (config ?s1)"
    by (simp add: libstdcxx_def)
  then have thrown: "render libstdcxx TestDisplayItem ?s1 = (Inl length_error, ?s1)"
    by (rule render_rows_exceed)
  have res: "navigateDown libstdcxx TestDisplayItem ?s0 = (Inl length_error, ?s1)"
    by (simp only: nav thrown returning_Inl [of _ length_error] fst_conv snd_conv)
  have "selectedItemIndex ?s1 = 1" and "renderer ?s1 = []"
    by simp_all
  then show ?thesis
    using ctor ne lt by (simp only: res fst_conv snd_conv) simp
qed

text \<open>
  C4, amended: in every state of a controller whose display is within what the
  containers can hold (\<open>rows\<close> at most \<open>max_size()\<close> of the vector of lines, \<open>columns\<close> and
  the width of a record line at most \<open>max_size()\<close> of a string), \<open>navigateDown\<close> either
  moves or does nothing. If the store is non-empty and \<open>selectedIndex < length - 1\<close>, it
  returns \<open>true\<close>, increments \<open>selectedIndex\<close>, sets \<open>windowStart\<close> to
  \<open>selectedIndex - rows + 1\<close> exactly when the new \<open>selectedIndex\<close> is at least
  \<open>windowStart + rows\<close> (and leaves it alone otherwise), changes nothing else and pushes
  one frame, that of the new state. Otherwise it returns \<open>false\<close> and the state, trace of
  the renderer included, is unchanged. With 5 records and 2 rows, three calls from the
  initial state give \<open>selectedIndex = 3\<close>, \<open>windowStart = 2\<close>, and the last frame shows
  record 2 without the cursor on row 0 and record 3 with the cursor on row 1.
\<close>

theorem navigateDown_contract:
  "reachable P T s \<Longrightarrow> frame_fits P T s \<Longrightarrow>
     (if items s \<noteq> [] \<and> unat (selectedItemIndex s) < length (items s) - 1
      then fst (navigateDown P T s) = Inr True
         \<and> unat (selectedItemIndex (snd (navigateDown P T s)))
             = unat (selectedItemIndex s) + 1
         \<and> (if unat (windowStartIndex s) + unat (rows (config s))
                 \<le> unat (selectedItemIndex s) + 1
              then unat (windowStartIndex (snd (navigateDown P T s)))
                 = unat (selectedItemIndex s) + 1 - unat (rows (config s)) + 1
              else windowStartIndex (snd (navigateDown P T s)) = windowStartIndex s)
         \<and> items (snd (navigateDown P T s)) = items s
         \<and> config (snd (navigateDown P T s)) = config s
         \<and> isSelected (snd (navigateDown P T s)) = isSelected s
         \<and> renderer (snd (navigateDown P T s))
             = renderer s @ [currentFrame T (snd (navigateDown P T s))]
      else navigateDown P T s = (Inr False, s))
     \<and> LCDDisplayController_ctor TestDisplayItem (createItems 5) (Some [])
           DisplayConfig_default
         = Inr \<lparr>config = DisplayConfig_default, items = createItems 5, renderer = [],
                selectedItemIndex = 0, windowStartIndex = 0, isSelected = False\<rparr>
     \<and> selectedItemIndex (navigateAll libstdcxx TestDisplayItem [Down, Down, Down]
           \<lparr>config = DisplayConfig_default, items = createItems 5, renderer = [],
            selectedItemIndex = 0, windowStartIndex = 0, isSelected = False\<rparr>) = 3
     \<and> windowStartIndex (navigateAll libstdcxx TestDisplayItem [Down, Down, Down]
           \<lparr>config = DisplayConfig_default, items = createItems 5, renderer = [],
            selectedItemIndex = 0, windowStartIndex = 0, isSelected = False\<rparr>) = 2
     \<and> last (renderer (navigateAll libstdcxx TestDisplayItem [Down, Down, Down]
           \<lparr>config = DisplayConfig_default, items = createItems 5, renderer = [],
            selectedItemIndex = 0, windowStartIndex = 0, isSelected = False\<rparr>))
         = (['' Item2     :2   '', ''>Item3     :3   ''], 16)"
  using navigateDown_reachable [of P T s] scenario_1 by simp

theorem navigateDown_contract_witness:
  "reachable libstdcxx TestDisplayItem
     \<lparr>config = DisplayConfig_default, items = createItems 5, renderer = [],
      selectedItemIndex = 0, windowStartIndex = 0, isSelected = False\<rparr>
   \<and> frame_fits libstdcxx TestDisplayItem
     \<lparr>config = DisplayConfig_default, items = createItems 5, renderer = [],
      selectedItemIndex = 0, windowStartIndex = 0, isSelected = False\<rparr>
   \<and> fst (navigateDown libstdcxx TestDisplayItem
        \<lparr>config = DisplayConfig_default, items = createItems 5, renderer = [],
         selectedItemIndex = 0, windowStartIndex = 0, isSelected = False\<rparr>) = Inr True
   \<and> unat (selectedItemIndex (snd (navigateDown libstdcxx TestDisplayItem
        \<lparr>config = DisplayConfig_default, items = createItems 5, renderer = [],
         selectedItemIndex = 0, windowStartIndex = 0, isSelected = False\<rparr>))) = 1
   \<and> windowStartIndex (snd (navigateDown libstdcxx TestDisplayItem
        \<lparr>config = DisplayConfig_default, items = createItems 5, renderer = [],
         selectedItemIndex = 0, windowStartIndex = 0, isSelected = False\<rparr>)) = 0
   \<and> reachable libstdcxx TestDisplayItem
     \<lparr>config = DisplayConfig_default, items = createItems 1, renderer = [],
      selectedItemIndex = 0, windowStartIndex = 0, isSelected = False\<rparr>
   \<and> frame_fits libstdcxx TestDisplayItem
     \<lparr>config = DisplayConfig_default, items = createItems 1, renderer = [],
      selectedItemIndex = 0, windowStartIndex = 0, isSelected = False\<rparr>
   \<and> navigateDown libstdcxx TestDisplayItem
        \<lparr>config = DisplayConfig_default, items = createItems 1, renderer = [],
         selectedItemIndex = 0, windowStartIndex = 0, isSelected = False\<rparr>
     = (Inr False, \<lparr>config = DisplayConfig_default, items = createItems 1, renderer = [],
         selectedItemIndex = 0, windowStartIndex = 0, isSelected = False\<rparr>)"
proof -
  let ?s5 = "\<lparr>config = DisplayConfig_default, items = createItems 5, renderer = [],
      selectedItemIndex = 0, windowStartIndex = 0, isSelected = False\<rparr>"
  let ?s1 = "\<lparr>config = DisplayConfig_default, items = createItems 1, renderer = [],
      selectedItemIndex = 0, windowStartIndex = 0, isSelected = False\<rparr>"
  have r5: "reachable libstdcxx TestDisplayItem ?s5"
    using scenario_1(1) by (rule reachable.constructed [rotated]) (simp add: createItems_def)
  have fits5: "frame_fits libstdcxx TestDisplayItem ?s5"
    by (rule frame_fits_default) simp
  have c5: "items ?s5 \<noteq> [] \<and> unat (selectedItemIndex ?s5) < length (items ?s5) - 1"
    by (simp add: createItems_5)
  have w5: "\<not> unat (windowStartIndex ?s5) + unat (rows (config ?s5))
      \<le> unat (selectedItemIndex ?s5) + 1"
    by (simp add: DisplayConfig_default_def)
  have r1: "reachable libstdcxx TestDisplayItem ?s1"
    by (rule scenario_single)
  have fits1: "frame_fits libstdcxx TestDisplayItem ?s1"
    by (rule frame_fits_default) simp
  have c1: "\<not> (items ?s1 \<noteq> [] \<and> unat (selectedItemIndex ?s1) < length (items ?s1) - 1)"
    by (rule scenario_single)
  have five: "fst (navigateDown libstdcxx TestDisplayItem ?s5) = Inr True
      \<and> unat (selectedItemIndex (snd (navigateDown libstdcxx TestDisplayItem ?s5))) = 1
      \<and> windowStartIndex (snd (navigateDown libstdcxx TestDisplayItem ?s5)) = 0"
    using navigateDown_contract [OF r5 fits5, THEN conjunct1]
    unfolding if_P [OF c5] if_not_P [OF w5] by simp
  have one: "navigateDown libstdcxx TestDisplayItem ?s1 = (Inr False, ?s1)"
    using navigateDown_contract [OF r1 fits1, THEN conjunct1]
    unfolding if_not_P [OF c1] .
  show ?thesis
    using r5 r1 fits5 fits1 five one by blast
qed

section \<open>Index errors\<close>

text \<open>
  C6: when the store is empty, or whenever \<open>selectedIndex \<ge> length\<close>, \<open>getCurrentValue\<close>,
  \<open>getCurrentKey\<close> and \<open>setCurrentValue\<close> throw \<open>std::out_of_range\<close>, and the state after
  the failed \<open>setCurrentValue\<close> is the state before it: store, \<open>selectedIndex\<close>,
  \<open>windowStart\<close>, \<open>isSelected\<close> and the trace of the renderer (no frame is pushed). The
  two getters are \<open>const\<close> and never change the state.
\<close>

theorem index_error_leaves_state_unchanged:
  "items s = [] \<or> length (items s) \<le> unat (selectedItemIndex s) \<Longrightarrow>
     getCurrentValue s = Inl index_error
     \<and> getCurrentKey s = Inl index_error
     \<and> setCurrentValue P T newValue s = (Inl index_error, s)"
  by (auto simp add: getCurrentValue_def getCurrentKey_def setCurrentValue_def
      validateItemIndex_def index_error_def)

theorem index_error_leaves_state_unchanged_witness:
  "items (\<lparr>config = DisplayConfig_default, items = [], renderer = [],
            selectedItemIndex = 0, windowStartIndex = 0, isSelected = False\<rparr>
          :: (string, uint8_t) LCDDisplayController) = []
   \<and> getCurrentValue (\<lparr>config = DisplayConfig_default, items = [], renderer = [],
            selectedItemIndex = 0, windowStartIndex = 0, isSelected = False\<rparr>
          :: (string, uint8_t) LCDDisplayController)
       = Inl index_error
   \<and> getCurrentKey (\<lparr>config = DisplayConfig_default, items = [], renderer = [],
            selectedItemIndex = 0, windowStartIndex = 0, isSelected = False\<rparr>
          :: (string, uint8_t) LCDDisplayController)
       = Inl index_error
   \<and> setCurrentValue libstdcxx InventoryDisplayItem 7
          \<lparr>config = DisplayConfig_default, items = [],
            renderer = [], selectedItemIndex = 0, windowStartIndex = 0, isSelected = False\<rparr>
       = (Inl index_error, \<lparr>config = DisplayConfig_default, items = [], renderer = [],
            selectedItemIndex = 0, windowStartIndex = 0, isSelected = False\<rparr>)"
  using index_error_leaves_state_unchanged
    [where s = "\<lparr>config = DisplayConfig_default, items = [], renderer = [],
          selectedItemIndex = 0, windowStartIndex = 0, isSelected = False\<rparr>"
      and P = libstdcxx and T = InventoryDisplayItem and newValue = 7]
  by simp

section \<open>Increment and decrement\<close>

lemma inc_byte: "(ucast ((ucast (v :: 8 word) :: 32 word) + 1) :: 8 word) = v + 1"
proof -
  have down: "is_down (ucast :: 32 word \<Rightarrow> 8 word)"
    by (simp add: is_down)
  have "(ucast v :: 32 word) + 1 = word_of_int (uint v) + word_of_int 1"
    by (simp only: ucast_eq word_of_int_1)
  also have "\<dots> = word_of_int (uint v + 1)"
    by (simp only: wi_homs)
  finally have "(ucast ((ucast v :: 32 word) + 1) :: 8 word) = word_of_int (uint v + 1)"
    by (simp only: ucast_down_wi [OF down])
  also have "\<dots> = word_of_int (uint v) + word_of_int 1"
    by (simp only: wi_homs)
  also have "\<dots> = v + 1"
    by (simp only: word_of_int_uint word_of_int_1)
  finally show ?thesis .
qed
lemma dec_byte: "(ucast ((ucast (v :: 8 word) :: 32 word) - 1) :: 8 word) = v - 1"
proof -
  have down: "is_down (ucast :: 32 word \<Rightarrow> 8 word)"
    by (simp add: is_down)
  have "(ucast v :: 32 word) - 1 = word_of_int (uint v) - word_of_int 1"
    by (simp only: ucast_eq word_of_int_1)
  also have "\<dots> = word_of_int (uint v - 1)"
    by (simp only: wi_homs)
  finally have "(ucast ((ucast v :: 32 word) - 1) :: 8 word) = word_of_int (uint v - 1)"
    by (simp only: ucast_down_wi [OF down])
  also have "\<dots> = word_of_int (uint v) - word_of_int 1"
    by (simp only: wi_homs)
  also have "\<dots> = v - 1"
    by (simp only: word_of_int_uint word_of_int_1)
  finally show ?thesis .
qed

lemma setCurrentValue_valid:
  "unat (selectedItemIndex s) < length (items s) \<Longrightarrow>
   setCurrentValue P T v s =
     render P T (s\<lparr>items := (items s)[unat (selectedItemIndex s) :=
        (items s ! unat (selectedItemIndex s))\<lparr>value := v\<rparr>]\<rparr>)"
  by (simp add: setCurrentValue_def validateItemIndex_def)

lemma getCurrentValue_valid:
  "unat (selectedItemIndex s) < length (items s) \<Longrightarrow>
   getCurrentValue s = Inr (value (items s ! unat (selectedItemIndex s)))"
  by (simp add: getCurrentValue_def validateItemIndex_def)

lemma incrementValue_valid:
  "unat (selectedItemIndex s) < length (items s) \<Longrightarrow>
   incrementValue P T s
     = setCurrentValue P T (value (items s ! unat (selectedItemIndex s)) + 1) s"
  by (simp add: incrementValue_def getCurrentValue_valid inc_byte)

lemma decrementValue_valid:
  "unat (selectedItemIndex s) < length (items s) \<Longrightarrow>
   decrementValue P T s
     = setCurrentValue P T (value (items s ! unat (selectedItemIndex s)) - 1) s"
  by (simp add: decrementValue_def getCurrentValue_valid dec_byte)

lemma setCurrentValue_outcome:
  assumes valid: "unat (selectedItemIndex s) < length (items s)"
  shows "getCurrentValue (snd (setCurrentValue P T v s)) = Inr v"
    and "fst (setCurrentValue P T v s) = Inr ()
         \<and> renderer (snd (setCurrentValue P T v s))
             = renderer s @ [currentFrame T (snd (setCurrentValue P T v s))]
       \<or> fst (setCurrentValue P T v s) = Inl length_error
         \<and> renderer (snd (setCurrentValue P T v s)) = renderer s"
    and "frame_fits P T s \<Longrightarrow>
       fst (setCurrentValue P T v s) = Inr ()
       \<and> renderer (snd (setCurrentValue P T v s))
           = renderer s @ [currentFrame T (snd (setCurrentValue P T v s))]"
proof -
  let ?s1 = "s\<lparr>items := (items s)[unat (selectedItemIndex s) :=
        (items s ! unat (selectedItemIndex s))\<lparr>value := v\<rparr>]\<rparr>"
  have set: "setCurrentValue P T v s = render P T ?s1"
    using valid by (rule setCurrentValue_valid)
  show "getCurrentValue (snd (setCurrentValue P T v s)) = Inr v"
    using valid by (simp add: set getCurrentValue_valid)
  show "fst (setCurrentValue P T v s) = Inr ()
         \<and> renderer (snd (setCurrentValue P T v s))
             = renderer s @ [currentFrame T (snd (setCurrentValue P T v s))]
       \<or> fst (setCurrentValue P T v s) = Inl length_error
         \<and> renderer (snd (setCurrentValue P T v s)) = renderer s"
    using render_cases [of P T ?s1] unfolding set by auto
  assume fits: "frame_fits P T s"
  have "frame_fits P T ?s1 = frame_fits P T s"
    by (rule frame_fits_cong) simp_all
  then have "frame_fits P T ?s1"
    using fits by simp
  then show "fst (setCurrentValue P T v s) = Inr ()
       \<and> renderer (snd (setCurrentValue P T v s))
           = renderer s @ [currentFrame T (snd (setCurrentValue P T v s))]"
    unfolding set by (simp add: render_pushes)
qed

text \<open>
  C7: with a valid selection, \<open>incrementValue\<close> is \<open>setCurrentValue\<close> of the current
  value plus one and \<open>decrementValue\<close> is \<open>setCurrentValue\<close> of the current value minus
  one. \<open>setCurrentValue\<close> stores the value and then renders, whether or not the value
  differs from the old one: it returns and pushes one frame, always so when the display is
  within what the containers can hold, or else \<open>render\<close> throws \<open>std::length_error\<close> with
  the value already stored and no frame pushed. The value is a \<open>uint8_t\<close>, so the
  arithmetic is modulo 256: incrementing 255 stores 0 and decrementing 0 stores 255.
\<close>

theorem increment_and_decrement_wrap:
  "unat (selectedItemIndex s) < length (items s) \<Longrightarrow>
     incrementValue P T s
       = setCurrentValue P T (value (items s ! unat (selectedItemIndex s)) + 1) s
     \<and> decrementValue P T s
       = setCurrentValue P T (value (items s ! unat (selectedItemIndex s)) - 1) s
     \<and> getCurrentValue (snd (setCurrentValue P T v s)) = Inr v
     \<and> (fst (setCurrentValue P T v s) = Inr ()
          \<and> renderer (snd (setCurrentValue P T v s))
              = renderer s @ [currentFrame T (snd (setCurrentValue P T v s))]
        \<or> fst (setCurrentValue P T v s) = Inl length_error
          \<and> renderer (snd (setCurrentValue P T v s)) = renderer s)
     \<and> (frame_fits P T s \<longrightarrow>
          fst (setCurrentValue P T v s) = Inr ()
          \<and> renderer (snd (setCurrentValue P T v s))
              = renderer s @ [currentFrame T (snd (setCurrentValue P T v s))])
     \<and> unat (value (items s ! unat (selectedItemIndex s)) + 1)
         = (unat (value (items s ! unat (selectedItemIndex s))) + 1) mod 256
     \<and> unat (value (items s ! unat (selectedItemIndex s)) - 1)
         = (unat (value (items s ! unat (selectedItemIndex s))) + 255) mod 256
     \<and> (value (items s ! unat (selectedItemIndex s)) = 255 \<longrightarrow>
          getCurrentValue (snd (incrementValue P T s)) = Inr 0)
     \<and> (value (items s ! unat (selectedItemIndex s)) = 0 \<longrightarrow>
          getCurrentValue (snd (decrementValue P T s)) = Inr 255)"
proof -
  assume valid: "unat (selectedItemIndex s) < length (items s)"
  let ?v = "value (items s ! unat (selectedItemIndex s))"
  note outcome = setCurrentValue_outcome [OF valid, of P T]
  have up: "unat (?v + 1) = (unat ?v + 1) mod 256"
    by (simp add: unat_word_ariths)
  have byte: "unat ?v < 256"
    using unsigned_less [of ?v] by simp
  have down: "unat (?v - 1) = (unat ?v + 255) mod 256"
  proof (cases "unat ?v = 0")
    case True
    then show ?thesis by (simp add: unat_sub_if')
  next
    case False
    then have "unat (?v - 1) = unat ?v - 1"
      by (simp add: unat_sub_if')
    moreover have "(unat ?v + 255) mod 256 = unat ?v - 1"
      using False byte by (simp add: mod_if)
    ultimately show ?thesis by simp
  qed
  have over: "(255 :: uint8_t) + 1 = 0" and under: "(0 :: uint8_t) - 1 = 255"
    by simp_all
  have top: "?v = 255 \<longrightarrow> getCurrentValue (snd (incrementValue P T s)) = Inr 0"
  proof
    assume "?v = 255"
    then have "incrementValue P T s = setCurrentValue P T 0 s"
      using incrementValue_valid [OF valid, of P T] by (simp only: over)
    then show "getCurrentValue (snd (incrementValue P T s)) = Inr 0"
      using outcome(1) [of 0] by simp
  qed
  have bottom: "?v = 0 \<longrightarrow> getCurrentValue (snd (decrementValue P T s)) = Inr 255"
  proof
    assume "?v = 0"
    then have "decrementValue P T s = setCurrentValue P T 255 s"
      using decrementValue_valid [OF valid, of P T] by (simp only: under)
    then show "getCurrentValue (snd (decrementValue P T s)) = Inr 255"
      using outcome(1) [of 255] by simp
  qed
  show ?thesis
    using incrementValue_valid [OF valid, of P T] decrementValue_valid [OF valid, of P T]
      outcome(1) [of v] outcome(2) [of v] outcome(3) [of v] up down top bottom
    by blast
qed

theorem increment_and_decrement_wrap_witness:
  "unat (selectedItemIndex
      \<lparr>config = DisplayConfig_default, items = [\<lparr>key = ''Potion'', value = 255\<rparr>],
       renderer = [], selectedItemIndex = 0, windowStartIndex = 0, isSelected = False\<rparr>)
     < length (items
      \<lparr>config = DisplayConfig_default, items = [\<lparr>key = ''Potion'', value = 255 :: uint8_t\<rparr>],
       renderer = [], selectedItemIndex = 0, windowStartIndex = 0, isSelected = False\<rparr>)
   \<and> frame_fits libstdcxx InventoryDisplayItem
      \<lparr>config = DisplayConfig_default, items = [\<lparr>key = ''Potion'', value = 255\<rparr>],
       renderer = [], selectedItemIndex = 0, windowStartIndex = 0, isSelected = False\<rparr>
   \<and> fst (setCurrentValue libstdcxx InventoryDisplayItem 7
      \<lparr>config = DisplayConfig_default, items = [\<lparr>key = ''Potion'', value = 255\<rparr>],
       renderer = [], selectedItemIndex = 0, windowStartIndex = 0, isSelected = False\<rparr>)
     = Inr ()
   \<and> getCurrentValue (snd (incrementValue libstdcxx InventoryDisplayItem
      \<lparr>config = DisplayConfig_default, items = [\<lparr>key = ''Potion'', value = 255\<rparr>],
       renderer = [], selectedItemIndex = 0, windowStartIndex = 0, isSelected = False\<rparr>))
     = Inr 0
   \<and> getCurrentValue (snd (decrementValue libstdcxx InventoryDisplayItem
      \<lparr>config = DisplayConfig_default, items = [\<lparr>key = ''Potion'', value = 0\<rparr>],
       renderer = [], selectedItemIndex = 0, windowStartIndex = 0, isSelected = False\<rparr>))
     = Inr 255"
proof -
  define full :: "(string, uint8_t) LCDDisplayController" where
    "full = \<lparr>config = DisplayConfig_default, items = [\<lparr>key = ''Potion'', value = 255\<rparr>],
       renderer = [], selectedItemIndex = 0, windowStartIndex = 0, isSelected = False\<rparr>"
  define none :: "(string, uint8_t) LCDDisplayController" where
    "none = \<lparr>config = DisplayConfig_default, items = [\<lparr>key = ''Potion'', value = 0\<rparr>],
       renderer = [], selectedItemIndex = 0, windowStartIndex = 0, isSelected = False\<rparr>"
  have vf: "unat (selectedItemIndex full) < length (items full)"
    and vn: "unat (selectedItemIndex none) < length (items none)"
    by (simp_all add: full_def none_def)
  have top: "value (items full ! unat (selectedItemIndex full)) = 255"
    and bottom: "value (items none ! unat (selectedItemIndex none)) = 0"
    by (simp_all add: full_def none_def)
  have fits: "frame_fits libstdcxx InventoryDisplayItem full"
    by (rule frame_fits_default) (simp add: full_def)
  have "fst (setCurrentValue libstdcxx InventoryDisplayItem 7 full) = Inr ()"
    using increment_and_decrement_wrap
      [OF vf, where P = libstdcxx and T = InventoryDisplayItem and v = 7] fits
    by blast
  moreover have "getCurrentValue (snd (incrementValue libstdcxx InventoryDisplayItem full))
      = Inr 0"
    using increment_and_decrement_wrap
      [OF vf, where P = libstdcxx and T = InventoryDisplayItem and v = 0] top
    by blast
  moreover have "getCurrentValue (snd (decrementValue libstdcxx InventoryDisplayItem none))
      = Inr 255"
    using increment_and_decrement_wrap
      [OF vn, where P = libstdcxx and T = InventoryDisplayItem and v = 0] bottom
    by blast
  ultimately show ?thesis
    using vf fits unfolding full_def none_def by simp
qed

section \<open>Construction\<close>

lemma requiredWidth_exact:
  assumes "unat (KeyWidth T) + unat (ValueWidth T) + 2 < 2 ^ 64"
  shows "unat (requiredWidth T) = 1 + unat (KeyWidth T) + 1 + unat (ValueWidth T)"
proof -
  have a: "unat (1 + KeyWidth T) = 1 + unat (KeyWidth T)"
    using assms size_t_add [of 1 "KeyWidth T"] by simp
  have b: "unat (1 + KeyWidth T + 1) = 1 + unat (KeyWidth T) + 1"
    using assms a size_t_add [of "1 + KeyWidth T" 1] by simp
  show ?thesis
    using assms b size_t_add [of "1 + KeyWidth T + 1" "ValueWidth T"]
    by (simp add: requiredWidth_def)
qed

lemma returning_render_throws:
  "fst (returning x (render P T s)) = Inl e \<Longrightarrow> e = length_error"
  using render_cases [of P T s] by (auto simp add: returning_def)

lemma navigation_throws:
  "fst (navigateUp P T s) = Inl e \<Longrightarrow> e = length_error"
  "fst (navigateDown P T s) = Inl e \<Longrightarrow> e = length_error"
  "fst (selectItem P T s) = Inl e \<Longrightarrow> e = length_error"
  "fst (deselectItem P T s) = Inl e \<Longrightarrow> e = length_error"
  by (auto simp add: navigateUp_def navigateDown_def selectItem_def deselectItem_def Let_def
      split: if_splits dest: returning_render_throws)

lemma setCurrentValue_throws:
  "fst (setCurrentValue P T v s) = Inl e \<Longrightarrow> e = index_error \<or> e = length_error"
  by (auto simp add: setCurrentValue_def validateItemIndex_def index_error_def
      split: if_splits dest: render_throws)

lemma getCurrent_throws:
  "getCurrentValue s = Inl e \<Longrightarrow> e = index_error"
  "getCurrentKey s = Inl e \<Longrightarrow> e = index_error"
  by (auto simp add: getCurrentValue_def getCurrentKey_def validateItemIndex_def index_error_def
      split: if_splits)

lemma incrementValue_throws:
  "fst (incrementValue P T s) = Inl e \<Longrightarrow> e = index_error \<or> e = length_error"
  "fst (decrementValue P T s) = Inl e \<Longrightarrow> e = index_error \<or> e = length_error"
  by (auto simp add: incrementValue_def decrementValue_def
      split: sum.splits dest: getCurrent_throws setCurrentValue_throws)

text \<open>
  C8: construction throws \<open>std::invalid_argument\<close> when the renderer is null or when
  \<open>columns < 1 + KeyWidth + 1 + ValueWidth\<close> (the sum as the constructor computes it, in
  \<open>size_t\<close>; it is the exact sum unless the widths come within 2 of \<open>2 ^ 64\<close>). A failed
  construction yields no controller, hence no frame; a successful one hands over the
  renderer with its trace untouched. No later operation throws \<open>std::invalid_argument\<close>:
  \<open>getCurrentValue\<close> and \<open>getCurrentKey\<close> throw nothing but \<open>std::out_of_range\<close>; \<open>render\<close>,
  the two navigation functions, \<open>selectItem\<close> and \<open>deselectItem\<close> throw nothing but the
  \<open>std::length_error\<close> of a display larger than the containers can hold;
  \<open>setCurrentValue\<close>, \<open>incrementValue\<close> and \<open>decrementValue\<close> throw nothing but those two.
\<close>

theorem invalid_configuration_fails_construction:
  "(rend = None \<or> columns cfg < 1 + KeyWidth T + 1 + ValueWidth T \<longrightarrow>
      (\<exists>msg. LCDDisplayController_ctor T its rend cfg = Inl (invalid_argument msg)))
   \<and> (LCDDisplayController_ctor T its rend cfg = Inr s \<longrightarrow>
      rend = Some (renderer s) \<and> 1 + KeyWidth T + 1 + ValueWidth T \<le> columns cfg)
   \<and> fst (setCurrentValue P T newValue s') \<noteq> Inl (invalid_argument msg')
   \<and> getCurrentValue s' \<noteq> Inl (invalid_argument msg')
   \<and> getCurrentKey s' \<noteq> Inl (invalid_argument msg')
   \<and> fst (incrementValue P U u) \<noteq> Inl (invalid_argument msg')
   \<and> fst (decrementValue P U u) \<noteq> Inl (invalid_argument msg')
   \<and> fst (render P T s') \<noteq> Inl (invalid_argument msg')
   \<and> fst (navigateUp P T s') \<noteq> Inl (invalid_argument msg')
   \<and> fst (navigateDown P T s') \<noteq> Inl (invalid_argument msg')
   \<and> fst (selectItem P T s') \<noteq> Inl (invalid_argument msg')
   \<and> fst (deselectItem P T s') \<noteq> Inl (invalid_argument msg')"
proof -
  have ctor: "(rend = None \<or> columns cfg < 1 + KeyWidth T + 1 + ValueWidth T \<longrightarrow>
      (\<exists>msg. LCDDisplayController_ctor T its rend cfg = Inl (invalid_argument msg)))
   \<and> (LCDDisplayController_ctor T its rend cfg = Inr s \<longrightarrow>
      rend = Some (renderer s) \<and> 1 + KeyWidth T + 1 + ValueWidth T \<le> columns cfg)"
    by (auto simp add: LCDDisplayController_ctor_def requiredWidth_def
        split: option.splits if_splits)
  have other: "invalid_argument msg' \<noteq> index_error" "invalid_argument msg' \<noteq> length_error"
    by (simp_all add: index_error_def)
  have "fst (setCurrentValue P T newValue s') \<noteq> Inl (invalid_argument msg')"
    using setCurrentValue_throws [of P T newValue s' "invalid_argument msg'"] other by blast
  moreover have "getCurrentValue s' \<noteq> Inl (invalid_argument msg')"
    using getCurrent_throws(1) [of s' "invalid_argument msg'"] other by blast
  moreover have "getCurrentKey s' \<noteq> Inl (invalid_argument msg')"
    using getCurrent_throws(2) [of s' "invalid_argument msg'"] other by blast
  moreover have "fst (incrementValue P U u) \<noteq> Inl (invalid_argument msg')"
    using incrementValue_throws(1) [of P U u "invalid_argument msg'"] other by blast
  moreover have "fst (decrementValue P U u) \<noteq> Inl (invalid_argument msg')"
    using incrementValue_throws(2) [of P U u "invalid_argument msg'"] other by blast
  moreover have "fst (render P T s') \<noteq> Inl (invalid_argument msg')"
    using render_throws [of P T s' "invalid_argument msg'"] other by blast
  moreover have "fst (navigateUp P T s') \<noteq> Inl (invalid_argument msg')"
    using navigation_throws(1) [of P T s' "invalid_argument msg'"] other by blast
  moreover have "fst (navigateDown P T s') \<noteq> Inl (invalid_argument msg')"
    using navigation_throws(2) [of P T s' "invalid_argument msg'"] other by blast
  moreover have "fst (selectItem P T s') \<noteq> Inl (invalid_argument msg')"
    using navigation_throws(3) [of P T s' "invalid_argument msg'"] other by blast
  moreover have "fst (deselectItem P T s') \<noteq> Inl (invalid_argument msg')"
    using navigation_throws(4) [of P T s' "invalid_argument msg'"] other by blast
  ultimately show ?thesis
    using ctor by blast
qed

theorem invalid_configuration_fails_construction_witness:
  "(\<exists>msg. LCDDisplayController_ctor TestDisplayItem (createItems 5) None
        DisplayConfig_default = Inl (invalid_argument msg))
   \<and> columns (DisplayConfig_default\<lparr>columns := 10\<rparr>)
       < 1 + KeyWidth TestDisplayItem + 1 + ValueWidth TestDisplayItem
   \<and> (\<exists>msg. LCDDisplayController_ctor TestDisplayItem (createItems 5) (Some [])
        (DisplayConfig_default\<lparr>columns := 10\<rparr>) = Inl (invalid_argument msg))
   \<and> LCDDisplayController_ctor TestDisplayItem (createItems 5) (Some [])
        DisplayConfig_default
       = Inr \<lparr>config = DisplayConfig_default, items = createItems 5, renderer = [],
              selectedItemIndex = 0, windowStartIndex = 0, isSelected = False\<rparr>
   \<and> 1 + KeyWidth TestDisplayItem + 1 + ValueWidth TestDisplayItem
       \<le> columns DisplayConfig_default"
proof -
  have narrow: "columns (DisplayConfig_default\<lparr>columns := 10\<rparr>)
       < 1 + KeyWidth TestDisplayItem + 1 + ValueWidth TestDisplayItem"
    by (simp add: TestDisplayItem_def)
  have ok: "LCDDisplayController_ctor TestDisplayItem (createItems 5) (Some [])
        DisplayConfig_default
       = Inr \<lparr>config = DisplayConfig_default, items = createItems 5, renderer = [],
              selectedItemIndex = 0, windowStartIndex = 0, isSelected = False\<rparr>"
    by (rule scenario_1)
  have "\<exists>msg. LCDDisplayController_ctor TestDisplayItem (createItems 5) None
        DisplayConfig_default = Inl (invalid_argument msg)"
    using invalid_configuration_fails_construction
      [where rend = None and cfg = DisplayConfig_default and T = TestDisplayItem
        and its = "createItems 5", THEN conjunct1]
    by simp
  moreover have "\<exists>msg. LCDDisplayController_ctor TestDisplayItem (createItems 5) (Some [])
        (DisplayConfig_default\<lparr>columns := 10\<rparr>) = Inl (invalid_argument msg)"
    using invalid_configuration_fails_construction
      [where rend = "Some []" and cfg = "DisplayConfig_default\<lparr>columns := 10\<rparr>"
        and T = TestDisplayItem and its = "createItems 5", THEN conjunct1]
      narrow
    by simp
  moreover have "1 + KeyWidth TestDisplayItem + 1 + ValueWidth TestDisplayItem
       \<le> columns DisplayConfig_default"
    using invalid_configuration_fails_construction
      [where rend = "Some []" and cfg = DisplayConfig_default and T = TestDisplayItem
        and its = "createItems 5"
        and s = "\<lparr>config = DisplayConfig_default, items = createItems 5, renderer = [],
          selectedItemIndex = 0, windowStartIndex = 0, isSelected = False\<rparr>",
        THEN conjunct2, THEN conjunct1]
      ok
    by simp
  ultimately show ?thesis
    using narrow ok by blast
qed

section \<open>The armed flag\<close>

lemma selectItem_arms:
  "\<not> isSelected s \<Longrightarrow>
   selectItem P T s = returning True (render P T (s\<lparr>isSelected := True\<rparr>))"
  by (simp add: selectItem_def)

lemma deselectItem_disarms:
  "isSelected s \<Longrightarrow>
   deselectItem P T s = returning True (render P T (s\<lparr>isSelected := False\<rparr>))"
  by (simp add: deselectItem_def)

lemma render_isSelected:
  "fst (render P T (s\<lparr>isSelected := b\<rparr>)) = fst (render P T s)"
  "renderer (snd (render P T (s\<lparr>isSelected := b\<rparr>))) = renderer (snd (render P T s))"
proof -
  show fst: "fst (render P T (s\<lparr>isSelected := b\<rparr>)) = fst (render P T s)"
    by (rule render_cong) simp_all
  show "renderer (snd (render P T (s\<lparr>isSelected := b\<rparr>))) = renderer (snd (render P T s))"
    by (simp add: render_trace [of P T "s\<lparr>isSelected := b\<rparr>"] render_trace [of P T s] fst
        split: sum.splits)
qed

lemma repaint:
  "fst (render P T s) = Inr () \<Longrightarrow> fst (returning True (render P T (s\<lparr>isSelected := b\<rparr>))) = Inr True"
  "renderer (snd (returning True (render P T (s\<lparr>isSelected := b\<rparr>)))) = renderer (snd (render P T s))"
  "last (renderer s) = currentFrame T s \<Longrightarrow>
   last (renderer (snd (returning True (render P T (s\<lparr>isSelected := b\<rparr>))))) = last (renderer s)"
proof -
  show "fst (returning True (render P T (s\<lparr>isSelected := b\<rparr>))) = Inr True"
    if "fst (render P T s) = Inr ()"
    using that by (simp add: returning_Inr [where u = "()"] render_isSelected)
  show trace: "renderer (snd (returning True (render P T (s\<lparr>isSelected := b\<rparr>))))
      = renderer (snd (render P T s))"
    by (simp add: render_isSelected)
  show "last (renderer (snd (returning True (render P T (s\<lparr>isSelected := b\<rparr>)))))
      = last (renderer s)"
    if "last (renderer s) = currentFrame T s"
    using that render_cases [of P T s] unfolding trace by auto
qed

text \<open>
  C10: the frame does not depend on \<open>isSelected\<close>. Two states that differ only in that
  flag render alike: \<open>render\<close> returns for both or throws for both, and leaves the same
  trace. \<open>selectItem\<close> and \<open>deselectItem\<close>, when they change the flag, leave the trace that
  \<open>render\<close> would have left before the change and return true whenever that \<open>render\<close>
  returns, so when the display is up to date the repaint equals the previous frame.
\<close>

theorem rendered_lines_ignore_isSelected:
  "fst (render P T (s\<lparr>isSelected := b\<rparr>)) = fst (render P T s)
   \<and> renderer (snd (render P T (s\<lparr>isSelected := b\<rparr>))) = renderer (snd (render P T s))
   \<and> (\<not> isSelected s \<longrightarrow>
        (fst (render P T s) = Inr () \<longrightarrow> fst (selectItem P T s) = Inr True)
        \<and> renderer (snd (selectItem P T s)) = renderer (snd (render P T s))
        \<and> (last (renderer s) = currentFrame T s \<longrightarrow>
             last (renderer (snd (selectItem P T s))) = last (renderer s)))
   \<and> (isSelected s \<longrightarrow>
        (fst (render P T s) = Inr () \<longrightarrow> fst (deselectItem P T s) = Inr True)
        \<and> renderer (snd (deselectItem P T s)) = renderer (snd (render P T s))
        \<and> (last (renderer s) = currentFrame T s \<longrightarrow>
             last (renderer (snd (deselectItem P T s))) = last (renderer s)))"
  using render_isSelected [where P = P and T = T and s = s and b = b]
    repaint [where P = P and T = T and s = s and b = True]
    repaint [where P = P and T = T and s = s and b = False]
    selectItem_arms [where P = P and T = T and s = s]
    deselectItem_disarms [where P = P and T = T and s = s]
  by simp

theorem rendered_lines_ignore_isSelected_witness:
  "\<not> isSelected (snd (render libstdcxx InventoryDisplayItem
        \<lparr>config = DisplayConfig_default, items = [\<lparr>key = ''Sword'', value = 99\<rparr>],
         renderer = [], selectedItemIndex = 0, windowStartIndex = 0, isSelected = False\<rparr>))
   \<and> last (renderer (snd (render libstdcxx InventoryDisplayItem
        \<lparr>config = DisplayConfig_default, items = [\<lparr>key = ''Sword'', value = 99\<rparr>],
         renderer = [], selectedItemIndex = 0, windowStartIndex = 0, isSelected = False\<rparr>)))
     = currentFrame InventoryDisplayItem (snd (render libstdcxx InventoryDisplayItem
        \<lparr>config = DisplayConfig_default, items = [\<lparr>key = ''Sword'', value = 99\<rparr>],
         renderer = [], selectedItemIndex = 0, windowStartIndex = 0, isSelected = False\<rparr>))
   \<and> fst (render libstdcxx InventoryDisplayItem (snd (render libstdcxx InventoryDisplayItem
        \<lparr>config = DisplayConfig_default, items = [\<lparr>key = ''Sword'', value = 99\<rparr>],
         renderer = [], selectedItemIndex = 0, windowStartIndex = 0, isSelected = False\<rparr>)))
     = Inr ()
   \<and> fst (selectItem libstdcxx InventoryDisplayItem (snd (render libstdcxx InventoryDisplayItem
        \<lparr>config = DisplayConfig_default, items = [\<lparr>key = ''Sword'', value = 99\<rparr>],
         renderer = [], selectedItemIndex = 0, windowStartIndex = 0, isSelected = False\<rparr>)))
     = Inr True
   \<and> last (renderer (snd (selectItem libstdcxx InventoryDisplayItem
        (snd (render libstdcxx InventoryDisplayItem
        \<lparr>config = DisplayConfig_default, items = [\<lparr>key = ''Sword'', value = 99\<rparr>],
         renderer = [], selectedItemIndex = 0, windowStartIndex = 0, isSelected = False\<rparr>)))))
     = last (renderer (snd (render libstdcxx InventoryDisplayItem
        \<lparr>config = DisplayConfig_default, items = [\<lparr>key = ''Sword'', value = 99\<rparr>],
         renderer = [], selectedItemIndex = 0, windowStartIndex = 0, isSelected = False\<rparr>)))
   \<and> isSelected (snd (selectItem libstdcxx InventoryDisplayItem
        (snd (render libstdcxx InventoryDisplayItem
        \<lparr>config = DisplayConfig_default, items = [\<lparr>key = ''Sword'', value = 99\<rparr>],
         renderer = [], selectedItemIndex = 0, windowStartIndex = 0, isSelected = False\<rparr>))))
   \<and> fst (deselectItem libstdcxx InventoryDisplayItem
        (snd (selectItem libstdcxx InventoryDisplayItem
        (snd (render libstdcxx InventoryDisplayItem
        \<lparr>config = DisplayConfig_default, items = [\<lparr>key = ''Sword'', value = 99\<rparr>],
         renderer = [], selectedItemIndex = 0, windowStartIndex = 0, isSelected = False\<rparr>)))))
     = Inr True
   \<and> last (renderer (snd (deselectItem libstdcxx InventoryDisplayItem
        (snd (selectItem libstdcxx InventoryDisplayItem
        (snd (render libstdcxx InventoryDisplayItem
        \<lparr>config = DisplayConfig_default, items = [\<lparr>key = ''Sword'', value = 99\<rparr>],
         renderer = [], selectedItemIndex = 0, windowStartIndex = 0, isSelected = False\<rparr>)))))))
     = last (renderer (snd (render libstdcxx InventoryDisplayItem
        \<lparr>config = DisplayConfig_default, items = [\<lparr>key = ''Sword'', value = 99\<rparr>],
         renderer = [], selectedItemIndex = 0, windowStartIndex = 0, isSelected = False\<rparr>)))"
proof -
  define s0 :: "(string, uint8_t) LCDDisplayController" where
    "s0 = \<lparr>config = DisplayConfig_default, items = [\<lparr>key = ''Sword'', value = 99\<rparr>],
         renderer = [], selectedItemIndex = 0, windowStartIndex = 0, isSelected = False\<rparr>"
  define s where "s = snd (render libstdcxx InventoryDisplayItem s0)"
  let ?P = libstdcxx
  let ?T = InventoryDisplayItem
  let ?s' = "snd (selectItem ?P ?T s)"
  have fits0: "frame_fits ?P ?T s0"
    by (rule frame_fits_default) (simp add: s0_def)
  have fits: "frame_fits ?P ?T s"
    using fits0 by (simp add: s_def)
  have off: "\<not> isSelected s"
    by (simp add: s_def) (simp add: s0_def)
  have shown: "last (renderer s) = currentFrame ?T s"
    using fits0 by (simp add: s_def render_pushes)
  have returns: "fst (render ?P ?T s) = Inr ()"
    using fits by (rule render_pushes)
  have sel: "fst (selectItem ?P ?T s) = Inr True \<and> last (renderer ?s') = last (renderer s)"
    using rendered_lines_ignore_isSelected [where P = ?P and T = ?T and s = s and b = True]
      off shown returns
    by blast
  have on: "isSelected ?s'"
    using off by (simp add: selectItem_arms)
  have fits': "frame_fits ?P ?T ?s'"
    using off fits by (simp add: selectItem_arms)
  have shown': "last (renderer ?s') = currentFrame ?T ?s'"
    using off fits by (simp add: selectItem_arms render_pushes)
  have returns': "fst (render ?P ?T ?s') = Inr ()"
    using fits' by (rule render_pushes)
  have "fst (deselectItem ?P ?T ?s') = Inr True
      \<and> last (renderer (snd (deselectItem ?P ?T ?s'))) = last (renderer ?s')"
    using rendered_lines_ignore_isSelected [where P = ?P and T = ?T and s = "?s'" and b = False]
      on shown' returns'
    by blast
  then show ?thesis
    unfolding s0_def [symmetric] s_def [symmetric] using off shown returns sel on by simp
qed

end
